theory Spec2Isabelle
  imports Complex_Main "HOL-Library.AList" "HOL-Library.Sublist"
begin

section \<open>JSON documents, Python values and exceptions\<close>

text \<open>
  The client hands the factory one document decoded by the JSON parser. A
  document is a tree: no two nodes are the same Python object. Numbers with a
  fraction are doubles; a finite double is modelled by the rational it denotes
  (non-finite floats have no JSON literal). Python 3 semantics throughout:
  a JSON string is a \<open>str\<close>, a JSON object is a \<open>dict\<close> whose keys
  are \<open>str\<close> and keep their insertion order.
\<close>

datatype json = JNull | JBool bool | JInt int | JFloat rat | JStr string
  | JList "json list" | JDict "(string \<times> json) list"

text \<open>The exceptions of Python that the modules can raise.\<close>

datatype error = KeyError | TypeError | ValueError | AttributeError | Exception

text \<open>A fallible step returns \<open>Inl\<close> the exception or \<open>Inr\<close> its result;
  \<open>and_then\<close> runs the next statement unless an exception was raised.\<close>

definition and_then :: "error + 'a \<Rightarrow> ('a \<Rightarrow> error + 'b) \<Rightarrow> error + 'b" where
  "and_then m f = (case m of Inl e \<Rightarrow> Inl e | Inr x \<Rightarrow> f x)"

text \<open>
  The keys of a Python dict are hashable values, compared by \<open>==\<close>:
  \<open>True == 1 == 1.0\<close>, so a number is a key by its numeric value; lists and
  dicts are unhashable (\<open>TypeError\<close>).
\<close>

datatype key = KNone | KNum rat | KStr string

fun hashable :: "json \<Rightarrow> error + key" where
  "hashable JNull = Inr KNone"
| "hashable (JBool b) = Inr (KNum (if b then 1 else 0))"
| "hashable (JInt i) = Inr (KNum (of_int i))"
| "hashable (JFloat q) = Inr (KNum q)"
| "hashable (JStr s) = Inr (KStr s)"
| "hashable (JList xs) = Inl TypeError"
| "hashable (JDict d) = Inl TypeError"

text \<open>\<open>obj[k]\<close> for a string \<open>k\<close>: only a dict can be subscripted by a string.\<close>

fun getitem :: "json \<Rightarrow> string \<Rightarrow> error + json" where
  "getitem (JDict d) k = (case map_of d k of None \<Rightarrow> Inl KeyError | Some v \<Rightarrow> Inr v)"
| "getitem j k = Inl TypeError"

text \<open>\<open>obj.get(k)\<close>: a method of dicts only; an absent key gives \<open>None\<close>.\<close>

fun dict_get :: "json \<Rightarrow> string \<Rightarrow> error + json" where
  "dict_get (JDict d) k = (case map_of d k of None \<Rightarrow> Inr JNull | Some v \<Rightarrow> Inr v)"
| "dict_get j k = Inl AttributeError"

text \<open>\<open>for x in obj\<close>: a list yields its elements, a dict its keys, a string
  its characters; nothing else is iterable.\<close>

fun iterate :: "json \<Rightarrow> error + json list" where
  "iterate (JList xs) = Inr xs"
| "iterate (JDict d) = Inr (map (\<lambda>kv. JStr (fst kv)) d)"
| "iterate (JStr s) = Inr (map (\<lambda>c. JStr [c]) s)"
| "iterate j = Inl TypeError"

text \<open>\<open>k in obj\<close> for a string \<open>k\<close>: key of a dict, element of a list,
  substring of a string.\<close>

fun contains :: "json \<Rightarrow> string \<Rightarrow> error + bool" where
  "contains (JDict d) k = Inr (map_of d k \<noteq> None)"
| "contains (JList xs) k = Inr (JStr k \<in> set xs)"
| "contains (JStr s) k = Inr (sublist k s)"
| "contains j k = Inl TypeError"

subsection \<open>Resources, links and the object store\<close>

text \<open>
  Resources and the lists held in entry fields are objects with an identity:
  they live in a store and are referred to by address, so that one object can be
  reached from several places and a write through one reference is seen through
  all of them. A store is the list of the objects allocated so far; an address is
  an index into it.
\<close>

type_synonym addr = nat

datatype ResourceLink = ResourceLink (resource_id: json) (link_type: json)

record datetime =
  year :: int
  month :: int
  day :: int
  hour :: int
  minute :: int
  second :: int
  microsecond :: int
  utc :: bool

text \<open>
  What a field of an entry can hold: a JSON value as decoded, a placeholder, a
  resolved resource, a list object, or a date.
\<close>

datatype val = VJson json | VLink ResourceLink | VRes addr | VList addr | VDate datetime

record Resource =
  sys :: json

record Entry = Resource +
  class_name :: string
  fields' :: "(string \<times> val) list"
  raw_fields :: "(string \<times> json) list"
  cf_cda :: "(string \<times> val) list option"

record Asset = Resource +
  url :: json
  mimeType :: json

record ContentType = Resource +
  display_field :: json
  name :: json
  ct_fields :: "(key \<times> json) list"

record Space = Resource +
  space_name :: json

record Array = Resource +
  limit :: json
  skip :: json
  total :: json
  items :: "addr option list"
  items_mapped :: "(string \<times> (key \<times> addr) list) list"

datatype obj = OEntry Entry | OAsset Asset | OContentType ContentType | OSpace Space
  | OArray Array | OList "val list"

type_synonym heap = "obj list"

definition alloc :: "heap \<Rightarrow> obj \<Rightarrow> heap \<times> addr" where
  "alloc h x = (h @ [x], length h)"

definition deref :: "heap \<Rightarrow> addr \<Rightarrow> obj option" where
  "deref h a = (if a < length h then Some (h ! a) else None)"

subsection \<open>Field types and schema classes (fields.py)\<close>

datatype field_type = Boolean | Date | Link | Location | Number | Object | Symbol | Text
  | List | MultipleAssets | MultipleEntries

record Field =
  field_type :: field_type
  field_id :: "string option"

text \<open>
  What the module takes from outside the repository: the interpreter's
  \<open>str()\<close> of a float, a container or an object; \<open>dateutil.parser.parse\<close>;
  and \<open>ast.literal_eval\<close> on a string (restricted to literals that are JSON-like
  data).
\<close>

record runtime =
  repr_obj :: "heap \<Rightarrow> val \<Rightarrow> string"
  parser_parse :: "string \<Rightarrow> error + datetime"
  literal_eval :: "string \<Rightarrow> error + json"

subsection \<open>The builtins \<open>isinstance\<close>, \<open>bool\<close>, \<open>int\<close> and \<open>str\<close>\<close>

fun isinstance_bool :: "val \<Rightarrow> bool" where
  "isinstance_bool (VJson (JBool b)) = True"
| "isinstance_bool v = False"

text \<open>\<open>bool\<close> is a subclass of \<open>int\<close>.\<close>

fun isinstance_int :: "val \<Rightarrow> bool" where
  "isinstance_int (VJson (JInt i)) = True"
| "isinstance_int (VJson (JBool b)) = True"
| "isinstance_int v = False"

fun isinstance_str :: "val \<Rightarrow> bool" where
  "isinstance_str (VJson (JStr s)) = True"
| "isinstance_str v = False"

fun isinstance_dict :: "val \<Rightarrow> bool" where
  "isinstance_dict (VJson (JDict d)) = True"
| "isinstance_dict v = False"

fun isinstance_list :: "val \<Rightarrow> bool" where
  "isinstance_list (VList a) = True"
| "isinstance_list (VJson (JList xs)) = True"
| "isinstance_list v = False"

fun isinstance_ResourceLink :: "val \<Rightarrow> bool" where
  "isinstance_ResourceLink (VLink l) = True"
| "isinstance_ResourceLink v = False"

text \<open>\<open>bool(value)\<close>: truthiness. An object without \<open>__bool__\<close> and
  \<open>__len__\<close> (a placeholder, a resource, a date) is true.\<close>

fun json_bool :: "json \<Rightarrow> bool" where
  "json_bool JNull = False"
| "json_bool (JBool b) = b"
| "json_bool (JInt i) = (i \<noteq> 0)"
| "json_bool (JFloat q) = (q \<noteq> 0)"
| "json_bool (JStr s) = (s \<noteq> [])"
| "json_bool (JList xs) = (xs \<noteq> [])"
| "json_bool (JDict d) = (d \<noteq> [])"

fun py_bool :: "heap \<Rightarrow> val \<Rightarrow> bool" where
  "py_bool h (VJson j) = json_bool j"
| "py_bool h (VList a) = (case deref h a of Some (OList xs) \<Rightarrow> xs \<noteq> [] | _ \<Rightarrow> True)"
| "py_bool h v = True"

definition isspace :: "char \<Rightarrow> bool" where
  "isspace c = ((of_char c :: nat) \<in> {9, 10, 11, 12, 13, 28, 29, 30, 31, 32})"

definition isdigit :: "char \<Rightarrow> bool" where
  "isdigit c = (48 \<le> (of_char c :: nat) \<and> (of_char c :: nat) \<le> 57)"

definition strip :: "string \<Rightarrow> string" where
  "strip s = rev (dropWhile isspace (rev (dropWhile isspace s)))"

definition digits_value :: "string \<Rightarrow> int" where
  "digits_value ds = foldl (\<lambda>a c. 10 * a + (of_char c - 48)) 0 ds"

definition parse_digits :: "string \<Rightarrow> error + int" where
  "parse_digits ds = (if ds \<noteq> [] \<and> list_all isdigit ds then Inr (digits_value ds) else Inl ValueError)"

text \<open>\<open>int(s)\<close> on a string: surrounding whitespace is dropped, then an optional
  sign and one or more decimal digits; anything else is a \<open>ValueError\<close>.\<close>

definition int_of_str :: "string \<Rightarrow> error + int" where
  "int_of_str s =
    (case strip s of
       [] \<Rightarrow> Inl ValueError
     | c # cs \<Rightarrow>
         if c = CHR ''-'' then and_then (parse_digits cs) (\<lambda>n. Inr (- n))
         else if c = CHR ''+'' then parse_digits cs
         else parse_digits (c # cs))"

text \<open>\<open>int(value)\<close>: a float is truncated towards zero, a string is parsed;
  \<open>None\<close>, containers and objects are a \<open>TypeError\<close>.\<close>

fun py_int :: "val \<Rightarrow> error + int" where
  "py_int (VJson (JInt i)) = Inr i"
| "py_int (VJson (JBool b)) = Inr (if b then 1 else 0)"
| "py_int (VJson (JFloat q)) = Inr (if 0 \<le> q then \<lfloor>q\<rfloor> else \<lceil>q\<rceil>)"
| "py_int (VJson (JStr s)) = int_of_str s"
| "py_int v = Inl TypeError"

function str_of_nat :: "nat \<Rightarrow> string" where
  "str_of_nat n = (if n < 10 then [''0123456789'' ! n] else str_of_nat (n div 10) @ [''0123456789'' ! (n mod 10)])"
  by pat_completeness auto
termination
  by (relation "measure (\<lambda>n. n)") auto

declare str_of_nat.simps [simp del]

definition str_of_int :: "int \<Rightarrow> string" where
  "str_of_int i = (if i < 0 then CHR ''-'' # str_of_nat (nat (- i)) else str_of_nat (nat i))"

text \<open>\<open>str(value)\<close>: fixed for \<open>None\<close>, booleans, integers and strings; what
  the interpreter prints for anything else is taken from the runtime.\<close>

fun py_str :: "runtime \<Rightarrow> heap \<Rightarrow> val \<Rightarrow> string" where
  "py_str rt h (VJson JNull) = ''None''"
| "py_str rt h (VJson (JBool b)) = (if b then ''True'' else ''False'')"
| "py_str rt h (VJson (JInt i)) = str_of_int i"
| "py_str rt h (VJson (JStr s)) = s"
| "py_str rt h v = repr_obj rt h v"

text \<open>\<open>ast.literal_eval(value)\<close>: a string is parsed as a literal; any other
  argument that is not a syntax tree is a \<open>ValueError\<close> (malformed node).\<close>

fun ast_literal_eval :: "runtime \<Rightarrow> val \<Rightarrow> error + json" where
  "ast_literal_eval rt (VJson (JStr s)) = literal_eval rt s"
| "ast_literal_eval rt v = Inl ValueError"

section \<open>serialization.py: \<open>ResourceFactory.convert_value\<close>\<close>

definition convert_value :: "runtime \<Rightarrow> heap \<Rightarrow> val \<Rightarrow> Field \<Rightarrow> error + (heap \<times> val)" where
  "convert_value rt h v field =
    (let clz = field_type field in
     if clz = Boolean then
       (if \<not> isinstance_bool v then Inr (h, VJson (JBool (py_bool h v))) else Inr (h, v))
     else if clz = Date then
       and_then (parser_parse rt (case v of VJson (JStr s) \<Rightarrow> s | _ \<Rightarrow> py_str rt h v))
         (\<lambda>d. Inr (h, VDate d))
     else if clz = Number then
       (if \<not> isinstance_int v then and_then (py_int v) (\<lambda>n. Inr (h, VJson (JInt n)))
        else Inr (h, v))
     else if clz = Object then
       (if \<not> isinstance_dict v then and_then (ast_literal_eval rt v) (\<lambda>j. Inr (h, VJson j))
        else Inr (h, v))
     else if clz = Text \<or> clz = Symbol then
       (if \<not> isinstance_str v then Inr (h, VJson (JStr (py_str rt h v))) else Inr (h, v))
     else if clz = List \<or> clz = MultipleAssets \<or> clz = MultipleEntries then
       (if \<not> isinstance_list v then (case alloc h (OList [v]) of (h', a) \<Rightarrow> Inr (h', VList a))
        else Inr (h, v))
     else Inr (h, v))"

subsection \<open>The factory and its registry of custom entry classes\<close>

text \<open>A class created by the metaclass \<open>FieldOwner\<close>: its name, its
  \<open>__content_type__\<close> attribute when it has one, and \<open>__entry_fields__\<close>.\<close>

record entry_class =
  cls_name :: string
  content_type :: "json option"
  entry_fields :: "(string \<times> Field) list"

record ResourceFactory =
  entries_mapping :: "(key \<times> entry_class) list"

subsection \<open>\<open>_extract_link\<close> and \<open>create_entry\<close>\<close>

definition ResourceLink_init :: "json \<Rightarrow> error + ResourceLink" where
  "ResourceLink_init s =
    and_then (getitem s ''id'') (\<lambda>i.
    and_then (getitem s ''linkType'') (\<lambda>t. Inr (ResourceLink i t)))"

fun extract_link :: "json \<Rightarrow> error + ResourceLink option" where
  "extract_link (JDict d) =
    (case map_of d ''sys'' of
       Some (JDict s) \<Rightarrow>
         if map_of s ''type'' = Some (JStr ''Link'')
         then and_then (ResourceLink_init (JDict s)) (\<lambda>l. Inr (Some l))
         else Inr None
     | _ \<Rightarrow> Inr None)"
| "extract_link obj = Inr None"

text \<open>The inner loop of \<open>create_entry\<close>: \<open>v[idx] = link\<close> for every element
  of a list that has the shape of a link.\<close>

fun replace_links_in_list :: "json list \<Rightarrow> error + val list" where
  "replace_links_in_list [] = Inr []"
| "replace_links_in_list (ele # rest) =
    and_then (extract_link ele) (\<lambda>l.
    and_then (replace_links_in_list rest) (\<lambda>vs.
      Inr ((case l of Some link \<Rightarrow> VLink link | None \<Rightarrow> VJson ele) # vs)))"

text \<open>The outer loop, over \<open>fields.items()\<close>: \<open>fields[k] = link\<close> overwrites
  the value of the entry being visited (a dict has one entry per key). A list
  value is a list object of its own in the store.\<close>

fun replace_links :: "heap \<Rightarrow> (string \<times> json) list \<Rightarrow> error + (heap \<times> (string \<times> val) list)" where
  "replace_links h [] = Inr (h, [])"
| "replace_links h ((k, v) # kvs) =
    and_then (extract_link v) (\<lambda>l.
      case l of
        Some link \<Rightarrow>
          and_then (replace_links h kvs) (\<lambda>(h', fs). Inr (h', (k, VLink link) # fs))
      | None \<Rightarrow>
          (case v of
             JList xs \<Rightarrow>
               and_then (replace_links_in_list xs) (\<lambda>vs.
                 case alloc h (OList vs) of (h1, a) \<Rightarrow>
                   and_then (replace_links h1 kvs) (\<lambda>(h', fs). Inr (h', (k, VList a) # fs)))
           | _ \<Rightarrow>
               and_then (replace_links h kvs) (\<lambda>(h', fs). Inr (h', (k, VJson v) # fs))))"

text \<open>The loop over \<open>clazz.__entry_fields__.items()\<close>. \<open>setattr(result, k, x)\<close>
  runs \<open>Field.__set__\<close>, which creates \<open>_cf_cda\<close> on first use and stores
  \<open>x\<close> under the field's \<open>field_id\<close>.\<close>

definition fields_get :: "(string \<times> val) list \<Rightarrow> string option \<Rightarrow> val" where
  "fields_get fs fid =
    (case fid of None \<Rightarrow> VJson JNull
     | Some i \<Rightarrow> (case map_of fs i of None \<Rightarrow> VJson JNull | Some x \<Rightarrow> x))"

definition Field_set :: "Field \<Rightarrow> (string \<times> val) list option \<Rightarrow> val \<Rightarrow> (string \<times> val) list option" where
  "Field_set f dct x =
    (case field_id f of None \<Rightarrow> dct
     | Some i \<Rightarrow> Some (AList.update i x (case dct of None \<Rightarrow> [] | Some d \<Rightarrow> d)))"

fun set_fields :: "runtime \<Rightarrow> heap \<Rightarrow> (string \<times> val) list \<Rightarrow> (string \<times> Field) list
    \<Rightarrow> (string \<times> val) list option \<Rightarrow> error + (heap \<times> (string \<times> val) list option)" where
  "set_fields rt h fs [] dct = Inr (h, dct)"
| "set_fields rt h fs ((k, v) # rest) dct =
    (let field_value = fields_get fs (field_id v) in
     if field_value \<noteq> VJson JNull then
       and_then (convert_value rt h field_value v) (\<lambda>(h', x).
         set_fields rt h' fs rest (Field_set v dct x))
     else set_fields rt h fs rest dct)"

definition create_entry :: "runtime \<Rightarrow> ResourceFactory \<Rightarrow> heap \<Rightarrow> json \<Rightarrow> error + (heap \<times> addr)" where
  "create_entry rt self h json =
    and_then (getitem json ''sys'') (\<lambda>s.
    and_then (getitem s ''contentType'') (\<lambda>c1.
    and_then (getitem c1 ''sys'') (\<lambda>c2.
    and_then (getitem c2 ''id'') (\<lambda>ct.
    and_then (getitem json ''fields'') (\<lambda>fds.
      case fds of
        JDict fd \<Rightarrow>
          and_then (replace_links h fd) (\<lambda>(h1, fs).
          and_then (hashable ct) (\<lambda>kct.
            case map_of (entries_mapping self) kct of
              Some clazz \<Rightarrow>
                and_then (set_fields rt h1 fs (entry_fields clazz) None) (\<lambda>(h2, dct).
                  Inr (alloc h2 (OEntry \<lparr>sys = s, class_name = cls_name clazz, fields' = fs,
                                          raw_fields = fd, cf_cda = dct\<rparr>)))
            | None \<Rightarrow>
                Inr (alloc h1 (OEntry \<lparr>sys = s, class_name = ''Entry'', fields' = fs,
                                       raw_fields = fd, cf_cda = None\<rparr>))))
      | _ \<Rightarrow> Inl AttributeError)))))"

subsection \<open>Assets, content types and spaces\<close>

text \<open>\<open>Resource.__init__\<close> stores \<open>sys or {}\<close>.\<close>

definition sys_or_empty :: "json \<Rightarrow> json" where
  "sys_or_empty s = (if json_bool s then s else JDict [])"

definition create_asset :: "heap \<Rightarrow> json \<Rightarrow> error + (heap \<times> addr)" where
  "create_asset h json =
    and_then (getitem json ''sys'') (\<lambda>s.
    and_then (getitem json ''fields'') (\<lambda>fs.
    and_then (getitem fs ''file'') (\<lambda>file_dict.
    and_then (getitem file_dict ''url'') (\<lambda>u.
    and_then (getitem file_dict ''contentType'') (\<lambda>m.
      Inr (alloc h (OAsset \<lparr>sys = sys_or_empty s, url = u, mimeType = m\<rparr>)))))))"

text \<open>The loop of \<open>create_content_type\<close>: \<open>field['id']\<close> is taken out of each
  field and becomes its key.\<close>

fun content_type_fields :: "json list \<Rightarrow> (key \<times> json) list \<Rightarrow> error + (key \<times> json) list" where
  "content_type_fields [] acc = Inr acc"
| "content_type_fields (field # rest) acc =
    and_then (getitem field ''id'') (\<lambda>fid.
    and_then (hashable fid) (\<lambda>k.
      content_type_fields rest
        (AList.update k (case field of JDict d \<Rightarrow> JDict (AList.delete ''id'' d) | _ \<Rightarrow> field) acc)))"

definition create_content_type :: "heap \<Rightarrow> json \<Rightarrow> error + (heap \<times> addr)" where
  "create_content_type h json =
    and_then (getitem json ''sys'') (\<lambda>s.
    and_then (getitem json ''fields'') (\<lambda>fs.
    and_then (iterate fs) (\<lambda>fl.
    and_then (content_type_fields fl []) (\<lambda>cf.
    and_then (getitem json ''name'') (\<lambda>n.
    and_then (dict_get json ''displayField'') (\<lambda>df.
      Inr (alloc h (OContentType \<lparr>sys = sys_or_empty s, display_field = df, name = n,
                                  ct_fields = cf\<rparr>))))))))"

definition create_space :: "heap \<Rightarrow> json \<Rightarrow> error + (heap \<times> addr)" where
  "create_space h json =
    and_then (getitem json ''sys'') (\<lambda>s.
    and_then (getitem json ''name'') (\<lambda>n.
      Inr (alloc h (OSpace \<lparr>sys = sys_or_empty s, space_name = n\<rparr>))))"

subsection \<open>Arrays: \<open>process_array_items\<close>, \<open>process_array_includes\<close>, \<open>create_array\<close>\<close>

fun obj_sys :: "obj \<Rightarrow> json option" where
  "obj_sys (OEntry e) = Some (sys e)"
| "obj_sys (OAsset a) = Some (sys a)"
| "obj_sys (OContentType c) = Some (sys c)"
| "obj_sys (OSpace s) = Some (sys s)"
| "obj_sys (OArray r) = Some (sys r)"
| "obj_sys (OList xs) = None"

text \<open>\<open>processed.sys['id']\<close> as a dict key; \<open>processed\<close> may be \<open>None\<close>.\<close>

definition sys_id :: "heap \<Rightarrow> addr option \<Rightarrow> error + key" where
  "sys_id h processed =
    (case processed of
       None \<Rightarrow> Inl AttributeError
     | Some a \<Rightarrow>
         (case deref h a of
            None \<Rightarrow> Inl AttributeError
          | Some ob \<Rightarrow>
              (case obj_sys ob of
                 None \<Rightarrow> Inl AttributeError
               | Some s \<Rightarrow> and_then (getitem s ''id'') hashable)))"

text \<open>\<open>array.items_mapped[key][processed.sys['id']] = processed\<close>.\<close>

definition set_mapped :: "heap \<Rightarrow> Array \<Rightarrow> string \<Rightarrow> addr option \<Rightarrow> error + Array" where
  "set_mapped h array k processed =
    (case map_of (items_mapped array) k of
       None \<Rightarrow> Inl KeyError
     | Some bucket \<Rightarrow>
         and_then (sys_id h processed) (\<lambda>i.
           case processed of
             None \<Rightarrow> Inl AttributeError
           | Some a \<Rightarrow>
               Inr (array\<lparr>items_mapped :=
                      AList.update k (AList.update i a bucket) (items_mapped array)\<rparr>)))"

text \<open>The key chosen by the \<open>isinstance\<close> tests of \<open>process_array_items\<close>.\<close>

definition kind_key :: "heap \<Rightarrow> addr option \<Rightarrow> string option" where
  "kind_key h processed =
    (case processed of
       None \<Rightarrow> None
     | Some a \<Rightarrow>
         (case deref h a of
            Some (OAsset x) \<Rightarrow> Some ''Asset''
          | Some (OEntry x) \<Rightarrow> Some ''Entry''
          | _ \<Rightarrow> None))"

text \<open>The loops take \<open>self.from_json\<close> as their first argument.\<close>

fun items_loop :: "(heap \<Rightarrow> json \<Rightarrow> error + (heap \<times> addr option)) \<Rightarrow> heap \<Rightarrow> Array
    \<Rightarrow> json list \<Rightarrow> error + (heap \<times> Array)" where
  "items_loop from_json h array [] = Inr (h, array)"
| "items_loop from_json h array (item # rest) =
    and_then (from_json h item) (\<lambda>(h1, processed).
    and_then (case kind_key h1 processed of
                None \<Rightarrow> Inr array
              | Some k \<Rightarrow> set_mapped h1 array k processed) (\<lambda>array1.
      items_loop from_json h1 (array1\<lparr>items := items array1 @ [processed]\<rparr>) rest))"

definition process_array_items :: "(heap \<Rightarrow> json \<Rightarrow> error + (heap \<times> addr option)) \<Rightarrow> heap \<Rightarrow> Array
    \<Rightarrow> json \<Rightarrow> error + (heap \<times> Array)" where
  "process_array_items from_json h array json =
    and_then (getitem json ''items'') (\<lambda>its.
    and_then (iterate its) (\<lambda>xs. items_loop from_json h array xs))"

fun includes_loop :: "(heap \<Rightarrow> json \<Rightarrow> error + (heap \<times> addr option)) \<Rightarrow> heap \<Rightarrow> Array
    \<Rightarrow> string \<Rightarrow> json list \<Rightarrow> error + (heap \<times> Array)" where
  "includes_loop from_json h array k [] = Inr (h, array)"
| "includes_loop from_json h array k (resource # rest) =
    and_then (from_json h resource) (\<lambda>(h1, processed).
    and_then (set_mapped h1 array k processed) (\<lambda>array1.
      includes_loop from_json h1 array1 k rest))"

fun keys_loop :: "(heap \<Rightarrow> json \<Rightarrow> error + (heap \<times> addr option)) \<Rightarrow> heap \<Rightarrow> Array
    \<Rightarrow> json \<Rightarrow> string list \<Rightarrow> error + (heap \<times> Array)" where
  "keys_loop from_json h array includes [] = Inr (h, array)"
| "keys_loop from_json h array includes (k # ks) =
    and_then (contains includes k) (\<lambda>present.
      if present then
        and_then (getitem includes k) (\<lambda>rs.
        and_then (iterate rs) (\<lambda>xs.
        and_then (includes_loop from_json h array k xs) (\<lambda>(h1, array1).
          keys_loop from_json h1 array1 includes ks)))
      else keys_loop from_json h array includes ks)"

definition process_array_includes :: "(heap \<Rightarrow> json \<Rightarrow> error + (heap \<times> addr option)) \<Rightarrow> heap
    \<Rightarrow> Array \<Rightarrow> json \<Rightarrow> error + (heap \<times> Array)" where
  "process_array_includes from_json h array json =
    and_then (dict_get json ''includes'') (\<lambda>inc.
      keys_loop from_json h array (if json_bool inc then inc else JDict [])
        (map fst (items_mapped array)))"

text \<open>A measure on documents under which every node a loop decodes is smaller
  than the document that holds it.\<close>

fun jsize :: "json \<Rightarrow> nat" where
  "jsize (JStr s) = max 1 (length s)"
| "jsize (JList xs) = Suc (sum_list (map jsize xs))"
| "jsize (JDict d) = Suc (sum_list (map (\<lambda>(k, v). max 1 (length k) + jsize v) d))"
| "jsize j = 1"

lemma and_then_cong [fundef_cong]:
  "m = m' \<Longrightarrow> (\<And>x. m' = Inr x \<Longrightarrow> f x = f' x) \<Longrightarrow> and_then m f = and_then m' f'"
  by (auto simp: and_then_def split: sum.splits)

lemma jsize_pos: "0 < jsize j"
  by (cases j) auto

lemma jsize_member: "x \<in> set xs \<Longrightarrow> jsize x \<le> sum_list (map jsize xs)"
  by (induction xs) auto

lemma jsize_map_of: "map_of d k = Some v \<Longrightarrow> jsize v < jsize (JDict d)"
  by (induction d) (auto split: if_splits)

lemma jsize_getitem: "getitem j k = Inr v \<Longrightarrow> jsize v < jsize j"
  by (cases j) (auto split: option.splits dest: jsize_map_of)

lemma jsize_key:
  "kv \<in> set d \<Longrightarrow> max 1 (length (fst kv)) \<le> sum_list (map (\<lambda>(k, v). max 1 (length k) + jsize v) d)"
proof (induction d)
  case Nil
  then show ?case by simp
next
  case (Cons p d)
  show ?case
  proof (cases "kv = p")
    case True
    then show ?thesis by (cases p) (simp add: max_def)
  next
    case False
    with Cons have "max 1 (length (fst kv)) \<le> sum_list (map (\<lambda>(k, v). max 1 (length k) + jsize v) d)"
      by simp
    then show ?thesis by (cases p) (simp add: max_def)
  qed
qed

lemma jsize_iterate: "iterate j = Inr xs \<Longrightarrow> x \<in> set xs \<Longrightarrow> jsize x \<le> jsize j"
proof (cases j)
  case (JList ys)
  assume "iterate j = Inr xs" "x \<in> set xs"
  with JList show ?thesis using jsize_member [of x ys] by auto
next
  case (JDict d)
  assume a: "iterate j = Inr xs" "x \<in> set xs"
  with JDict obtain kv where "kv \<in> set d" "x = JStr (fst kv)" by auto
  with JDict show ?thesis using jsize_key [of kv d] by simp
next
  case (JStr s)
  assume a: "iterate j = Inr xs" "x \<in> set xs"
  with JStr obtain c where "x = JStr [c]" by auto
  moreover from a JStr have "s \<noteq> []" by auto
  ultimately show ?thesis using JStr by (cases s) auto
qed auto

lemma items_loop_cong:
  "(\<And>hh x. x \<in> set xs \<Longrightarrow> f hh x = g hh x) \<Longrightarrow> items_loop f h array xs = items_loop g h array xs"
  by (induction xs arbitrary: h array) (auto intro!: and_then_cong)

lemma includes_loop_cong:
  "(\<And>hh x. x \<in> set xs \<Longrightarrow> f hh x = g hh x)
    \<Longrightarrow> includes_loop f h array k xs = includes_loop g h array k xs"
  by (induction xs arbitrary: h array) (auto intro!: and_then_cong)

lemma keys_loop_cong:
  "(\<And>hh x. jsize x < jsize inc \<Longrightarrow> f hh x = g hh x)
    \<Longrightarrow> keys_loop f h array inc ks = keys_loop g h array inc ks"
proof (induction ks arbitrary: h array)
  case Nil
  show ?case by simp
next
  case (Cons k ks)
  have inner: "includes_loop f h array k xs = includes_loop g h array k xs"
    if "getitem inc k = Inr rs" "iterate rs = Inr xs" for rs xs
  proof (rule includes_loop_cong)
    fix hh x assume "x \<in> set xs"
    with that have "jsize x < jsize inc"
      using jsize_iterate [of rs xs x] jsize_getitem [of inc k rs] by simp
    then show "f hh x = g hh x" by (rule Cons.prems)
  qed
  show ?case
    by (auto intro!: and_then_cong simp: inner Cons.IH [OF Cons.prems])
qed

lemma process_array_items_cong [fundef_cong]:
  "h = h' \<Longrightarrow> array = array' \<Longrightarrow> json = json'
    \<Longrightarrow> (\<And>hh x. jsize x < jsize json' \<Longrightarrow> f hh x = g hh x)
    \<Longrightarrow> process_array_items f h array json = process_array_items g h' array' json'"
  unfolding process_array_items_def
  by (auto intro!: and_then_cong items_loop_cong
      dest!: jsize_getitem jsize_iterate)

lemma process_array_includes_cong [fundef_cong]:
  "h = h' \<Longrightarrow> array = array' \<Longrightarrow> json = json'
    \<Longrightarrow> (\<And>hh x. jsize x < jsize json' \<Longrightarrow> f hh x = g hh x)
    \<Longrightarrow> process_array_includes f h array json = process_array_includes g h' array' json'"
proof -
  assume eqs: "h = h'" "array = array'" "json = json'"
    and fg: "\<And>hh x. jsize x < jsize json' \<Longrightarrow> f hh x = g hh x"
  have "keys_loop f h' array' (if json_bool inc then inc else JDict []) ks
      = keys_loop g h' array' (if json_bool inc then inc else JDict []) ks"
    if "dict_get json' ''includes'' = Inr inc" for inc ks
  proof (rule keys_loop_cong)
    fix hh x
    assume lt: "jsize x < jsize (if json_bool inc then inc else JDict [])"
    have "jsize (if json_bool inc then inc else JDict []) \<le> jsize json'"
      using that jsize_pos [of json']
      by (cases json') (auto split: option.splits dest: jsize_map_of)
    with lt show "f hh x = g hh x" by (intro fg) simp
  qed
  with eqs show ?thesis
    unfolding process_array_includes_def by (auto intro!: and_then_cong)
qed

function from_json :: "runtime \<Rightarrow> ResourceFactory \<Rightarrow> heap \<Rightarrow> json \<Rightarrow> error + (heap \<times> addr option)"
  and create_array :: "runtime \<Rightarrow> ResourceFactory \<Rightarrow> heap \<Rightarrow> json \<Rightarrow> error + (heap \<times> addr)"
where
  "from_json rt self h json =
    and_then (getitem json ''sys'') (\<lambda>s.
    and_then (getitem s ''type'') (\<lambda>res_type.
      if res_type = JStr ''Array'' then
        and_then (create_array rt self h json) (\<lambda>(h', a). Inr (h', Some a))
      else if res_type = JStr ''Entry'' then
        and_then (create_entry rt self h json) (\<lambda>(h', a). Inr (h', Some a))
      else if res_type = JStr ''Asset'' then
        and_then (create_asset h json) (\<lambda>(h', a). Inr (h', Some a))
      else if res_type = JStr ''ContentType'' then
        and_then (create_content_type h json) (\<lambda>(h', a). Inr (h', Some a))
      else if res_type = JStr ''Space'' then
        and_then (create_space h json) (\<lambda>(h', a). Inr (h', Some a))
      else Inr (h, None)))"
| "create_array rt self h json =
    and_then (getitem json ''sys'') (\<lambda>s.
    and_then (getitem json ''total'') (\<lambda>t.
    and_then (getitem json ''skip'') (\<lambda>sk.
    and_then (getitem json ''limit'') (\<lambda>l.
    and_then (process_array_items (from_json rt self) h
                \<lparr>sys = sys_or_empty s, limit = l, skip = sk, total = t, items = [],
                 items_mapped = [(''Asset'', []), (''Entry'', [])]\<rparr> json) (\<lambda>(h1, result1).
    and_then (process_array_includes (from_json rt self) h1 result1 json) (\<lambda>(h2, result2).
      Inr (alloc h2 (OArray result2))))))))"
  by pat_completeness auto
termination
  by (relation "measure (\<lambda>x. case x of Inl (rt, self, h, j) \<Rightarrow> 2 * jsize j + 1
                                   | Inr (rt, self, h, j) \<Rightarrow> 2 * jsize j)") auto

declare from_json.simps [simp del] create_array.simps [simp del]

section \<open>resources.py: \<open>Array.resolve_links\<close>\<close>

text \<open>\<open>self.items_mapped[link.link_type].get(link.resource_id)\<close>.\<close>

definition resolve_resource_link :: "Array \<Rightarrow> ResourceLink \<Rightarrow> error + addr option" where
  "resolve_resource_link self link =
    and_then (hashable (link_type link)) (\<lambda>t.
      case (case t of KStr s \<Rightarrow> map_of (items_mapped self) s | _ \<Rightarrow> None) of
        None \<Rightarrow> Inl KeyError
      | Some bucket \<Rightarrow> and_then (hashable (resource_id link)) (\<lambda>i. Inr (map_of bucket i)))"

text \<open>The loop over the elements of a list: it stops at the first element that
  is not a placeholder.\<close>

fun resolve_list :: "Array \<Rightarrow> val list \<Rightarrow> error + val list" where
  "resolve_list self [] = Inr []"
| "resolve_list self (ele # rest) =
    (case ele of
       VLink link \<Rightarrow>
         and_then (resolve_resource_link self link) (\<lambda>resolved.
         and_then (resolve_list self rest) (\<lambda>rest'.
           Inr ((case resolved of None \<Rightarrow> ele | Some a \<Rightarrow> VRes a) # rest')))
     | _ \<Rightarrow> Inr (ele # rest))"

text \<open>The loop over \<open>dct.items()\<close>: \<open>dct[k] = resolved\<close> overwrites the value
  of the entry being visited; \<open>v[idx] = resolved\<close> writes into the list object.\<close>

fun resolve_dict :: "Array \<Rightarrow> heap \<Rightarrow> (string \<times> val) list \<Rightarrow> error + (heap \<times> (string \<times> val) list)" where
  "resolve_dict self h [] = Inr (h, [])"
| "resolve_dict self h ((k, v) # kvs) =
    (case v of
       VLink link \<Rightarrow>
         and_then (resolve_resource_link self link) (\<lambda>resolved.
         and_then (resolve_dict self h kvs) (\<lambda>(h', kvs').
           Inr (h', (k, case resolved of None \<Rightarrow> v | Some a \<Rightarrow> VRes a) # kvs')))
     | VList a \<Rightarrow>
         (case deref h a of
            Some (OList xs) \<Rightarrow>
              and_then (resolve_list self xs) (\<lambda>ys.
              and_then (resolve_dict self (h[a := OList ys]) kvs) (\<lambda>(h', kvs').
                Inr (h', (k, v) # kvs')))
          | _ \<Rightarrow> and_then (resolve_dict self h kvs) (\<lambda>(h', kvs'). Inr (h', (k, v) # kvs')))
     | _ \<Rightarrow> and_then (resolve_dict self h kvs) (\<lambda>(h', kvs'). Inr (h', (k, v) # kvs')))"

text \<open>One round of the outer loop: the two containers of a resource,
  \<open>getattr(resource, '_cf_cda', {})\<close> first, \<open>resource.fields\<close> second. An
  asset's \<open>fields\<close> is the empty dict and a content type's holds field
  descriptions, so the loop changes nothing there; a space or an array has no
  \<open>fields\<close> attribute.\<close>

definition resolve_resource :: "Array \<Rightarrow> heap \<Rightarrow> addr \<Rightarrow> error + heap" where
  "resolve_resource self h r =
    (case deref h r of
       Some (OEntry e) \<Rightarrow>
         and_then (resolve_dict self h (case cf_cda e of None \<Rightarrow> [] | Some d \<Rightarrow> d)) (\<lambda>(h1, d1).
         and_then (resolve_dict self h1 (fields' e)) (\<lambda>(h2, f2).
           Inr (h2[r := OEntry (e\<lparr>fields' := f2,
                                  cf_cda := (case cf_cda e of None \<Rightarrow> None | Some d \<Rightarrow> Some d1)\<rparr>)])))
     | Some (OAsset x) \<Rightarrow> Inr h
     | Some (OContentType c) \<Rightarrow> Inr h
     | _ \<Rightarrow> Inl AttributeError)"

fun resolve_loop :: "Array \<Rightarrow> heap \<Rightarrow> addr list \<Rightarrow> error + heap" where
  "resolve_loop self h [] = Inr h"
| "resolve_loop self h (r # rs) =
    and_then (resolve_resource self h r) (\<lambda>h'. resolve_loop self h' rs)"

definition resolve_links :: "Array \<Rightarrow> heap \<Rightarrow> error + heap" where
  "resolve_links self h =
    (case map_of (items_mapped self) ''Entry'' of
       None \<Rightarrow> Inl KeyError
     | Some bucket \<Rightarrow> resolve_loop self h (map snd bucket))"

section \<open>fields.py and client.py: declaring and registering entry classes\<close>

text \<open>An attribute of a class body: a \<open>Field\<close> instance or any other value.\<close>

datatype attr = AField Field | AValue json

text \<open>The loop of \<open>FieldOwner.__new__\<close> over \<open>attrs.items()\<close>; the state is
  \<open>fields\<close> and \<open>content_type_id\<close> (\<open>JNull\<close> for \<open>None\<close>).\<close>

fun collect_attrs :: "bool \<Rightarrow> (string \<times> attr) list \<Rightarrow> (string \<times> Field) list \<times> json
    \<Rightarrow> (string \<times> Field) list \<times> json" where
  "collect_attrs is_custom [] st = st"
| "collect_attrs is_custom ((n, v) # rest) (fs, content_type_id) =
    (case v of
       AField f \<Rightarrow>
         collect_attrs is_custom rest
           (AList.update n (if field_id f = None then f\<lparr>field_id := Some n\<rparr> else f) fs,
            content_type_id)
     | AValue x \<Rightarrow>
         if is_custom \<and> n = ''__content_type__''
         then collect_attrs is_custom rest (fs, x)
         else collect_attrs is_custom rest (fs, content_type_id))"

text \<open>What \<open>c.__content_type__\<close> reads on the class made from \<open>attrs\<close>: the
  attribute's value; for a \<open>Field\<close> the descriptor's \<open>__get__\<close> on the class,
  which is \<open>None\<close>; nothing when the body has no such attribute (the base class
  \<open>Entry\<close> has none to inherit).\<close>

definition class_content_type :: "(string \<times> attr) list \<Rightarrow> json option" where
  "class_content_type attrs =
    (case map_of attrs ''__content_type__'' of
       None \<Rightarrow> None
     | Some (AValue x) \<Rightarrow> Some x
     | Some (AField f) \<Rightarrow> Some JNull)"

definition FieldOwner_new :: "string \<Rightarrow> (string \<times> attr) list \<Rightarrow> error + entry_class" where
  "FieldOwner_new nm attrs =
    (let is_custom = (nm \<noteq> ''Entry'') in
     case collect_attrs is_custom attrs ([], JNull) of (fs, content_type_id) \<Rightarrow>
       if is_custom \<and> content_type_id = JNull then Inl AttributeError
       else Inr \<lparr>cls_name = nm, content_type = class_content_type attrs, entry_fields = fs\<rparr>)"

text \<open>A class given to the client: \<open>Entry\<close> itself, a class made by
  \<open>FieldOwner\<close> from a class statement with the base \<open>Entry\<close>, or a class that
  does not derive from \<open>Entry\<close>.\<close>

datatype pyclass = EntryBase | EntrySubclass entry_class | OtherClass string

record Config =
  space_id :: json
  access_token :: json
  custom_entries :: "pyclass list"
  resolve_links_flag :: bool

fun validate_classes :: "pyclass list \<Rightarrow> error + unit" where
  "validate_classes [] = Inr ()"
| "validate_classes (OtherClass n # rest) = Inl Exception"
| "validate_classes (EntryBase # rest) = Inl Exception"
| "validate_classes (EntrySubclass c # rest) = validate_classes rest"

definition validate_config :: "Config \<Rightarrow> error + unit" where
  "validate_config config =
    (if space_id config = JNull then Inl Exception
     else if access_token config = JNull then Inl Exception
     else validate_classes (custom_entries config))"

text \<open>\<open>ResourceFactory.__init__\<close>: \<open>self.entries_mapping[c.__content_type__] = c\<close>
  for every class.\<close>

fun register_classes :: "pyclass list \<Rightarrow> (key \<times> entry_class) list \<Rightarrow> error + (key \<times> entry_class) list" where
  "register_classes [] m = Inr m"
| "register_classes (EntrySubclass c # rest) m =
    (case content_type c of
       None \<Rightarrow> Inl AttributeError
     | Some ct \<Rightarrow> and_then (hashable ct) (\<lambda>k. register_classes rest (AList.update k c m)))"
| "register_classes (c # rest) m = Inl AttributeError"

definition ResourceFactory_init :: "pyclass list \<Rightarrow> error + ResourceFactory" where
  "ResourceFactory_init classes =
    and_then (register_classes classes []) (\<lambda>m. Inr \<lparr>entries_mapping = m\<rparr>)"

text \<open>\<open>Client.__init__\<close>, as far as the registry goes: the configuration is
  validated, then the dispatcher builds the factory.\<close>

definition Client_init :: "json \<Rightarrow> json \<Rightarrow> pyclass list \<Rightarrow> bool \<Rightarrow> error + (Config \<times> ResourceFactory)" where
  "Client_init sid token classes rl =
    (let config = \<lparr>space_id = sid, access_token = token, custom_entries = classes,
                   resolve_links_flag = rl\<rparr> in
     and_then (validate_config config) (\<lambda>u.
     and_then (ResourceFactory_init (custom_entries config)) (\<lambda>factory.
       Inr (config, factory))))"

section \<open>Vocabulary of the properties\<close>

text \<open>A runtime for the worked examples. Of the interpreter's reprs only that
  of the float 3.5 matters there (Python prints \<open>3.5\<close>); the date parser and
  \<open>literal_eval\<close> are not called in them.\<close>

definition example_runtime :: runtime where
  "example_runtime =
    \<lparr>repr_obj = (\<lambda>h v. if v = VJson (JFloat (7 / 2)) then ''3.5'' else ''<object>''),
     parser_parse = (\<lambda>s. Inl ValueError),
     literal_eval = (\<lambda>s. Inl ValueError)\<rparr>"






subsection \<open>A worked response: two cats that are each other's best friend\<close>

definition link_json :: "string \<Rightarrow> string \<Rightarrow> json" where
  "link_json kind i =
    JDict [(''sys'', JDict [(''type'', JStr ''Link''), (''linkType'', JStr kind), (''id'', JStr i)])]"

definition entry_sys :: "string \<Rightarrow> string \<Rightarrow> json" where
  "entry_sys i ct =
    JDict [(''id'', JStr i), (''type'', JStr ''Entry''),
           (''contentType'', link_json ''ContentType'' ct)]"

definition entry_json :: "string \<Rightarrow> string \<Rightarrow> (string \<times> json) list \<Rightarrow> json" where
  "entry_json i ct fs = JDict [(''sys'', entry_sys i ct), (''fields'', JDict fs)]"

definition asset_json :: "string \<Rightarrow> string \<Rightarrow> json" where
  "asset_json i u =
    JDict [(''sys'', JDict [(''id'', JStr i), (''type'', JStr ''Asset'')]),
           (''fields'', JDict [(''file'', JDict [(''url'', JStr u),
                                                 (''contentType'', JStr ''image/png'')])])]"

definition array_json :: "json list \<Rightarrow> (string \<times> json) list \<Rightarrow> json" where
  "array_json its incl =
    JDict [(''sys'', JDict [(''type'', JStr ''Array'')]), (''total'', JInt (int (length its))),
           (''skip'', JInt 0), (''limit'', JInt 100), (''items'', JList its),
           (''includes'', JDict incl)]"

text \<open>The class statement of the tests' \<open>Cat\<close>, and the class it creates.\<close>

definition Cat_attrs :: "(string \<times> attr) list" where
  "Cat_attrs =
    [(''__content_type__'', AValue (JStr ''cat'')),
     (''name'', AField \<lparr>field_type = Text, field_id = None\<rparr>),
     (''lives'', AField \<lparr>field_type = Number, field_id = None\<rparr>),
     (''friends'', AField \<lparr>field_type = List, field_id = None\<rparr>),
     (''best_friend'', AField \<lparr>field_type = Link, field_id = Some ''bestFriend''\<rparr>)]"

definition Cat :: entry_class where
  "Cat = \<lparr>cls_name = ''Cat'', content_type = Some (JStr ''cat''),
          entry_fields =
            [(''name'', \<lparr>field_type = Text, field_id = Some ''name''\<rparr>),
             (''lives'', \<lparr>field_type = Number, field_id = Some ''lives''\<rparr>),
             (''friends'', \<lparr>field_type = List, field_id = Some ''friends''\<rparr>),
             (''best_friend'', \<lparr>field_type = Link, field_id = Some ''bestFriend''\<rparr>)]\<rparr>"

definition cats_factory :: ResourceFactory where
  "cats_factory = \<lparr>entries_mapping = [(KStr ''cat'', Cat)]\<rparr>"

definition happycat_fields :: "(string \<times> json) list" where
  "happycat_fields =
     [(''name'', JStr ''Happy Cat''), (''lives'', JStr ''9''),
      (''bestFriend'', link_json ''Entry'' ''nyancat''),
      (''image'', link_json ''Asset'' ''happycat_img''),
      (''friends'', JList [link_json ''Entry'' ''nyancat'', link_json ''Entry'' ''ghost'',
                           JStr ''x'', link_json ''Entry'' ''nyancat''])]"

definition nyancat_fields :: "(string \<times> json) list" where
  "nyancat_fields =
     [(''name'', JStr ''Nyan Cat''),
      (''bestFriend'', link_json ''Entry'' ''happycat''),
      (''tags'', JList [JStr ''rainbow'', link_json ''Entry'' ''happycat''])]"

definition cats_response :: json where
  "cats_response =
     array_json [entry_json ''happycat'' ''cat'' happycat_fields,
                 entry_json ''nyancat'' ''cat'' nyancat_fields]
       [(''Asset'', JList [asset_json ''happycat_img'' ''//images/happycat.png''])]"



subsection \<open>What a resolution pass computes\<close>

text \<open>A placeholder whose target is found becomes the reference that
  \<open>items_mapped\<close> holds; every other value stays.\<close>

definition resolved_value :: "Array \<Rightarrow> val \<Rightarrow> val" where
  "resolved_value self v =
    (case v of
       VLink l \<Rightarrow> (case resolve_resource_link self l of Inr (Some a) \<Rightarrow> VRes a | _ \<Rightarrow> v)
     | _ \<Rightarrow> v)"

text \<open>A list: the leading run of placeholders is resolved element by element,
  everything from the first other element on stays.\<close>

definition resolved_list :: "Array \<Rightarrow> val list \<Rightarrow> val list" where
  "resolved_list self xs =
    map (resolved_value self) (takeWhile isinstance_ResourceLink xs)
      @ dropWhile isinstance_ResourceLink xs"

definition resolved_dict :: "Array \<Rightarrow> (string \<times> val) list \<Rightarrow> (string \<times> val) list" where
  "resolved_dict self d = map (\<lambda>kv. (fst kv, resolved_value self (snd kv))) d"

definition resolved_entry :: "Array \<Rightarrow> Entry \<Rightarrow> Entry" where
  "resolved_entry self e =
    e\<lparr>fields' := resolved_dict self (fields' e),
      cf_cda := map_option (resolved_dict self) (cf_cda e)\<rparr>"

fun resolved_obj :: "Array \<Rightarrow> obj \<Rightarrow> obj" where
  "resolved_obj self (OEntry e) = OEntry (resolved_entry self e)"
| "resolved_obj self (OList xs) = OList (resolved_list self xs)"
| "resolved_obj self ob = ob"

text \<open>The slots of both field containers of an entry.\<close>

definition containers :: "Entry \<Rightarrow> (string \<times> val) list" where
  "containers e = (case cf_cda e of None \<Rightarrow> [] | Some d \<Rightarrow> d) @ fields' e"

text \<open>The store during a pass, seen from the store \<open>h0\<close> it started from: every
  object is as it was or as the pass leaves it.\<close>

definition hinv :: "Array \<Rightarrow> heap \<Rightarrow> heap \<Rightarrow> bool" where
  "hinv self h0 h =
    (length h = length h0
     \<and> (\<forall>x < length h0. h ! x = h0 ! x \<or> h ! x = resolved_obj self (h0 ! x)))"



text \<open>The classes whose instances have a \<open>fields\<close> attribute.\<close>

definition has_fields :: "obj \<Rightarrow> bool" where
  "has_fields ob = (case ob of OEntry e \<Rightarrow> True | OAsset a \<Rightarrow> True | OContentType c \<Rightarrow> True | _ \<Rightarrow> False)"


text \<open>The store after decoding \<open>cats_response\<close>: the list held by
  \<open>friends\<close>, Happy Cat, the list held by \<open>tags\<close>, Nyan Cat, the included
  asset and the array.\<close>

definition nyancat_link :: val where
  "nyancat_link = VLink (ResourceLink (JStr ''nyancat'') (JStr ''Entry''))"

definition happycat_link :: val where
  "happycat_link = VLink (ResourceLink (JStr ''happycat'') (JStr ''Entry''))"

definition ghost_link :: val where
  "ghost_link = VLink (ResourceLink (JStr ''ghost'') (JStr ''Entry''))"

definition image_link :: val where
  "image_link = VLink (ResourceLink (JStr ''happycat_img'') (JStr ''Asset''))"

definition happycat_entry :: Entry where
  "happycat_entry =
    \<lparr>sys = entry_sys ''happycat'' ''cat'', class_name = ''Cat'',
     fields' = [(''name'', VJson (JStr ''Happy Cat'')), (''lives'', VJson (JStr ''9'')),
                (''bestFriend'', nyancat_link), (''image'', image_link),
                (''friends'', VList 0)],
     raw_fields = happycat_fields,
     cf_cda = Some [(''name'', VJson (JStr ''Happy Cat'')), (''lives'', VJson (JInt 9)),
                    (''friends'', VList 0), (''bestFriend'', nyancat_link)]\<rparr>"

definition nyancat_entry :: Entry where
  "nyancat_entry =
    \<lparr>sys = entry_sys ''nyancat'' ''cat'', class_name = ''Cat'',
     fields' = [(''name'', VJson (JStr ''Nyan Cat'')), (''bestFriend'', happycat_link),
                (''tags'', VList 2)],
     raw_fields = nyancat_fields,
     cf_cda = Some [(''name'', VJson (JStr ''Nyan Cat'')), (''bestFriend'', happycat_link)]\<rparr>"

definition cats_array :: Array where
  "cats_array =
    \<lparr>sys = JDict [(''type'', JStr ''Array'')], limit = JInt 100, skip = JInt 0, total = JInt 2,
     items = [Some 1, Some 3],
     items_mapped = [(''Asset'', [(KStr ''happycat_img'', 4)]),
                     (''Entry'', [(KStr ''happycat'', 1), (KStr ''nyancat'', 3)])]\<rparr>"

definition cats_asset :: Asset where
  "cats_asset =
    \<lparr>sys = JDict [(''id'', JStr ''happycat_img''), (''type'', JStr ''Asset'')],
     url = JStr ''//images/happycat.png'', mimeType = JStr ''image/png''\<rparr>"

definition cats_heap :: heap where
  "cats_heap =
    [OList [nyancat_link, ghost_link, VJson (JStr ''x''), nyancat_link],
     OEntry happycat_entry,
     OList [VJson (JStr ''rainbow''), happycat_link],
     OEntry nyancat_entry,
     OAsset cats_asset,
     OArray cats_array]"

text \<open>The same store after \<open>resolve_links\<close>.\<close>

definition happycat_resolved :: Entry where
  "happycat_resolved =
    happycat_entry
      \<lparr>fields' := [(''name'', VJson (JStr ''Happy Cat'')), (''lives'', VJson (JStr ''9'')),
                   (''bestFriend'', VRes 3), (''image'', VRes 4), (''friends'', VList 0)],
       cf_cda := Some [(''name'', VJson (JStr ''Happy Cat'')), (''lives'', VJson (JInt 9)),
                       (''friends'', VList 0), (''bestFriend'', VRes 3)]\<rparr>"

definition nyancat_resolved :: Entry where
  "nyancat_resolved =
    nyancat_entry
      \<lparr>fields' := [(''name'', VJson (JStr ''Nyan Cat'')), (''bestFriend'', VRes 1),
                   (''tags'', VList 2)],
       cf_cda := Some [(''name'', VJson (JStr ''Nyan Cat'')), (''bestFriend'', VRes 1)]\<rparr>"

definition cats_resolved :: heap where
  "cats_resolved =
    [OList [VRes 3, ghost_link, VJson (JStr ''x''), nyancat_link],
     OEntry happycat_resolved,
     OList [VJson (JStr ''rainbow''), happycat_link],
     OEntry nyancat_resolved,
     OAsset cats_asset,
     OArray cats_array]"

text \<open>A response whose entry links to its space.\<close>

definition space_link_response :: json where
  "space_link_response =
    array_json [entry_json ''jake'' ''dog'' [(''home'', link_json ''Space'' ''cfexampleapi'')]] []"

definition space_link_array :: Array where
  "space_link_array =
    \<lparr>sys = JDict [(''type'', JStr ''Array'')], limit = JInt 100, skip = JInt 0, total = JInt 1,
     items = [Some 0],
     items_mapped = [(''Asset'', []), (''Entry'', [(KStr ''jake'', 0)])]\<rparr>"

definition space_link_heap :: heap where
  "space_link_heap =
    [OEntry \<lparr>sys = entry_sys ''jake'' ''dog'', class_name = ''Entry'',
             fields' = [(''home'', VLink (ResourceLink (JStr ''cfexampleapi'') (JStr ''Space'')))],
             raw_fields = [(''home'', link_json ''Space'' ''cfexampleapi'')],
             cf_cda = None\<rparr>,
     OArray space_link_array]"

(*DEFS*)

section \<open>Coercion: \<open>int\<close> reads back what \<open>str\<close> prints\<close>
















section \<open>Dates\<close>





section \<open>Declaring and registering entry classes\<close>







lemma Cat_class: "FieldOwner_new ''Cat'' Cat_attrs = Inr Cat"
  by (simp add: FieldOwner_new_def Cat_attrs_def Cat_def class_content_type_def)

lemma cats_registry:
  "Client_init (JStr ''cfexampleapi'') (JStr ''b4c0n73n7fu1'') [EntrySubclass Cat] True
     = Inr (\<lparr>space_id = JStr ''cfexampleapi'', access_token = JStr ''b4c0n73n7fu1'',
             custom_entries = [EntrySubclass Cat], resolve_links_flag = True\<rparr>, cats_factory)"
  by (simp add: Client_init_def validate_config_def ResourceFactory_init_def and_then_def
      Cat_def cats_factory_def)

section \<open>The resolution pass\<close>

lemma and_then_Inr [simp]: "and_then (Inr x) f = f x"
  by (simp add: and_then_def)

lemma and_then_Inl [simp]: "and_then (Inl e) f = Inl e"
  by (simp add: and_then_def)

lemma and_then_eq_Inr: "and_then m f = Inr y \<longleftrightarrow> (\<exists>x. m = Inr x \<and> f x = Inr y)"
  by (cases m) auto

lemma resolved_value_idem [simp]:
  "resolved_value self (resolved_value self v) = resolved_value self v"
  by (auto simp: resolved_value_def split: val.splits sum.splits option.splits)

lemma resolved_value_VList [simp]: "resolved_value self (VList a) = VList a"
  by (simp add: resolved_value_def)

lemma resolved_value_eq_VList [simp]: "resolved_value self v = VList a \<longleftrightarrow> v = VList a"
  by (auto simp: resolved_value_def split: val.splits sum.splits option.splits)

lemma VList_eq_resolved_value [simp]: "VList a = resolved_value self v \<longleftrightarrow> v = VList a"
  by (auto simp: resolved_value_def split: val.splits sum.splits option.splits)

lemma resolved_list_Nil [simp]: "resolved_list self [] = []"
  by (simp add: resolved_list_def)

lemma resolved_list_link:
  "resolved_list self (VLink l # xs) = resolved_value self (VLink l) # resolved_list self xs"
  by (simp add: resolved_list_def)

lemma resolved_list_other:
  "\<not> isinstance_ResourceLink x \<Longrightarrow> resolved_list self (x # xs) = x # xs"
  by (simp add: resolved_list_def)

lemma resolved_list_idem [simp]:
  "resolved_list self (resolved_list self xs) = resolved_list self xs"
proof (induction xs)
  case Nil
  show ?case by simp
next
  case (Cons x xs)
  show ?case
  proof (cases x)
    case (VLink l)
    show ?thesis
    proof (cases "resolved_value self (VLink l) = VLink l")
      case True
      with VLink Cons show ?thesis by (simp add: resolved_list_link)
    next
      case False
      then have "\<not> isinstance_ResourceLink (resolved_value self (VLink l))"
        by (auto simp: resolved_value_def split: sum.splits option.splits)
      with VLink show ?thesis by (simp add: resolved_list_link resolved_list_other)
    qed
  qed (simp_all add: resolved_list_other)
qed

lemma resolve_list_Inr: "resolve_list self xs = Inr ys \<Longrightarrow> ys = resolved_list self xs"
proof (induction xs arbitrary: ys)
  case Nil
  then show ?case by simp
next
  case (Cons x xs)
  show ?case
  proof (cases x)
    case (VLink l)
    with Cons.prems obtain r rest' where
      r: "resolve_resource_link self l = Inr r" and
      rest: "resolve_list self xs = Inr rest'" and
      ys: "ys = (case r of None \<Rightarrow> x | Some a \<Rightarrow> VRes a) # rest'"
      by (auto simp: and_then_eq_Inr)
    from Cons.IH [OF rest] VLink r ys show ?thesis
      by (simp add: resolved_list_link resolved_value_def split: option.splits)
  qed (use Cons.prems in \<open>auto simp: resolved_list_other\<close>)
qed

lemma resolved_dict_idem [simp]:
  "resolved_dict self (resolved_dict self d) = resolved_dict self d"
  by (simp add: resolved_dict_def)

lemma resolved_entry_idem [simp]:
  "resolved_entry self (resolved_entry self e) = resolved_entry self e"
  by (cases "cf_cda e") (simp_all add: resolved_entry_def)

lemma resolved_obj_idem [simp]: "resolved_obj self (resolved_obj self ob) = resolved_obj self ob"
  by (cases ob) simp_all

lemma resolved_obj_eq_OList:
  "resolved_obj self ob = OList ys \<Longrightarrow> \<exists>xs. ob = OList xs \<and> ys = resolved_list self xs"
  by (cases ob) auto

lemma resolved_obj_eq_OEntry:
  "resolved_obj self ob = OEntry e' \<Longrightarrow> \<exists>e. ob = OEntry e \<and> e' = resolved_entry self e"
  by (cases ob) auto

lemma hinv_refl: "hinv self h h"
  by (simp add: hinv_def)

lemma hinv_at:
  "hinv self h0 h \<Longrightarrow> x < length h0 \<Longrightarrow> resolved_obj self (h ! x) = resolved_obj self (h0 ! x)"
  by (auto simp: hinv_def)

lemma hinv_update:
  assumes "hinv self h0 h" and "x < length h"
  shows "hinv self h0 (h[x := resolved_obj self (h ! x)])"
    and "(h[x := resolved_obj self (h ! x)]) ! x = resolved_obj self (h0 ! x)"
    and "\<And>y. y < length h0 \<Longrightarrow> h ! y = resolved_obj self (h0 ! y)
            \<Longrightarrow> (h[x := resolved_obj self (h ! x)]) ! y = resolved_obj self (h0 ! y)"
proof -
  from assms have len: "length h = length h0" and x: "x < length h0" by (auto simp: hinv_def)
  have r: "resolved_obj self (h ! x) = resolved_obj self (h0 ! x)"
    using hinv_at [OF assms(1) x] .
  show "hinv self h0 (h[x := resolved_obj self (h ! x)])"
    using assms r by (auto simp: hinv_def nth_list_update)
  show "(h[x := resolved_obj self (h ! x)]) ! x = resolved_obj self (h0 ! x)"
    using assms r by simp
  show "\<And>y. y < length h0 \<Longrightarrow> h ! y = resolved_obj self (h0 ! y)
            \<Longrightarrow> (h[x := resolved_obj self (h ! x)]) ! y = resolved_obj self (h0 ! y)"
    using assms r by (auto simp: nth_list_update)
qed

lemma resolved_dict_VList:
  "(k, VList a) \<in> set (resolved_dict self d) \<longleftrightarrow> (k, VList a) \<in> set d"
  by (induction d) (auto simp: resolved_dict_def)

lemma resolve_dict_step:
  assumes "hinv self h0 h" and "resolve_dict self h kvs = Inr (h', kvs')"
  shows "hinv self h0 h' \<and> kvs' = resolved_dict self kvs
    \<and> (\<forall>x < length h0. h ! x = resolved_obj self (h0 ! x) \<longrightarrow> h' ! x = resolved_obj self (h0 ! x))
    \<and> (\<forall>k a xs. (k, VList a) \<in> set kvs \<and> a < length h0 \<and> h0 ! a = OList xs
          \<longrightarrow> h' ! a = OList (resolved_list self xs))"
  using assms
proof (induction kvs arbitrary: h h' kvs')
  case Nil
  then show ?case by (simp add: resolved_dict_def)
next
  case (Cons kv kvs)
  obtain k v where kv: "kv = (k, v)" by (cases kv)
  have len: "length h = length h0" using Cons.prems(1) by (simp add: hinv_def)
  have plain: ?case
    if rest: "resolve_dict self h kvs = Inr (h', kvs'')"
      and out: "kvs' = (k, resolved_value self v) # kvs''"
      and nolist: "\<And>a xs. v = VList a \<Longrightarrow> a < length h0 \<Longrightarrow> h0 ! a = OList xs \<Longrightarrow> False"
    for kvs''
  proof -
    from Cons.IH [OF Cons.prems(1) rest] out kv nolist show ?thesis
      by (auto simp: resolved_dict_def)
  qed
  have other: ?case if "\<not> isinstance_ResourceLink v" "\<not> (\<exists>a. v = VList a)"
  proof -
    from that Cons.prems(2) kv obtain kvs'' where
      rest: "resolve_dict self h kvs = Inr (h', kvs'')" and
      out: "kvs' = (k, v) # kvs''"
      by (cases v) (auto simp: and_then_eq_Inr)
    moreover have "resolved_value self v = v"
      using that by (cases v) (auto simp: resolved_value_def)
    ultimately show ?thesis using that by (intro plain) auto
  qed
  show ?case
  proof (cases v)
    case (VLink l)
    with Cons.prems(2) kv obtain r kvs'' where
      r: "resolve_resource_link self l = Inr r" and
      rest: "resolve_dict self h kvs = Inr (h', kvs'')" and
      out: "kvs' = (k, case r of None \<Rightarrow> v | Some a \<Rightarrow> VRes a) # kvs''"
      by (auto simp: and_then_eq_Inr)
    from r out VLink have "kvs' = (k, resolved_value self v) # kvs''"
      by (simp add: resolved_value_def split: option.splits)
    with rest VLink show ?thesis by (intro plain) auto
  next
    case (VList a)
    show ?thesis
    proof (cases "\<exists>xs'. deref h a = Some (OList xs')")
      case True
      then obtain xs' where a: "a < length h" and hx: "h ! a = OList xs'"
        by (auto simp: deref_def split: if_splits)
      with Cons.prems(2) kv VList obtain ys kvs'' where
        ys: "resolve_list self xs' = Inr ys" and
        rest: "resolve_dict self (h[a := OList ys]) kvs = Inr (h', kvs'')" and
        out: "kvs' = (k, v) # kvs''"
        by (auto simp: and_then_eq_Inr deref_def)
      have h1: "h[a := OList ys] = h[a := resolved_obj self (h ! a)]"
        using resolve_list_Inr [OF ys] hx by simp
      note up = hinv_update [OF Cons.prems(1) a, folded h1]
      note ih = Cons.IH [OF up(1) rest]
      have done_a: "h' ! a = resolved_obj self (h0 ! a)"
        using ih up(2) a len by auto
      have "\<forall>x<length h0. h ! x = resolved_obj self (h0 ! x) \<longrightarrow> h' ! x = resolved_obj self (h0 ! x)"
        using ih up(3) by blast
      moreover have "\<forall>k' a' xs. (k', VList a') \<in> set (kv # kvs) \<and> a' < length h0 \<and> h0 ! a' = OList xs
          \<longrightarrow> h' ! a' = OList (resolved_list self xs)"
        using ih kv VList done_a by auto
      moreover have "kvs' = resolved_dict self (kv # kvs)"
        using ih out kv VList by (simp add: resolved_dict_def)
      ultimately show ?thesis using ih by blast
    next
      case False
      with Cons.prems(2) kv VList obtain kvs'' where
        rest: "resolve_dict self h kvs = Inr (h', kvs'')" and
        out: "kvs' = (k, v) # kvs''"
        by (auto simp: and_then_eq_Inr split: option.splits obj.splits)
      have "False" if "a < length h0" "h0 ! a = OList xs" for xs
      proof -
        from Cons.prems(1) that have "h ! a = OList xs \<or> h ! a = OList (resolved_list self xs)"
          by (auto simp: hinv_def)
        with False that len show False by (auto simp: deref_def)
      qed
      with rest out VList show ?thesis by (intro plain) auto
    qed
  next
    case (VJson j)
    then show ?thesis by (intro other) auto
  next
    case (VRes b)
    then show ?thesis by (intro other) auto
  next
    case (VDate d)
    then show ?thesis by (intro other) auto
  qed
qed


lemma containers_resolved_VList:
  "(k, VList a) \<in> set (containers (resolved_entry self e)) \<longleftrightarrow> (k, VList a) \<in> set (containers e)"
  by (cases "cf_cda e") (auto simp: containers_def resolved_entry_def resolved_dict_VList)

lemma resolve_resource_step:
  assumes "hinv self h0 h" and "resolve_resource self h r = Inr h'"
  shows "hinv self h0 h'
    \<and> (\<forall>x < length h0. h ! x = resolved_obj self (h0 ! x) \<longrightarrow> h' ! x = resolved_obj self (h0 ! x))
    \<and> r < length h0 \<and> h' ! r = resolved_obj self (h0 ! r)
    \<and> (\<forall>e k a xs. h0 ! r = OEntry e \<and> (k, VList a) \<in> set (containers e) \<and> a < length h0
          \<and> h0 ! a = OList xs \<longrightarrow> h' ! a = OList (resolved_list self xs))"
proof -
  have len: "length h = length h0" using assms(1) by (simp add: hinv_def)
  from assms(2) obtain ob where ob: "deref h r = Some ob"
    by (cases "deref h r") (auto simp: resolve_resource_def)
  then have r: "r < length h0" and hr: "h ! r = ob"
    using len by (auto simp: deref_def split: if_splits)
  have at_r: "resolved_obj self ob = resolved_obj self (h0 ! r)"
    using hinv_at [OF assms(1) r] hr by simp
  show ?thesis
  proof (cases ob)
    case (OEntry e)
    let ?cf = "case cf_cda e of None \<Rightarrow> [] | Some d \<Rightarrow> d"
    from assms(2) ob OEntry obtain h1 d1 h2 f2 where
      d1: "resolve_dict self h ?cf = Inr (h1, d1)" and
      f2: "resolve_dict self h1 (fields' e) = Inr (h2, f2)" and
      h': "h' = h2[r := OEntry (e\<lparr>fields' := f2,
              cf_cda := (case cf_cda e of None \<Rightarrow> None | Some d \<Rightarrow> Some d1)\<rparr>)]"
      by (auto simp: resolve_resource_def and_then_eq_Inr)
    note s1 = resolve_dict_step [OF assms(1) d1]
    then have i1: "hinv self h0 h1" by simp
    note s2 = resolve_dict_step [OF i1 f2]
    then have i2: "hinv self h0 h2" by simp
    have len2: "length h2 = length h0" using i2 by (simp add: hinv_def)
    have new: "e\<lparr>fields' := f2, cf_cda := (case cf_cda e of None \<Rightarrow> None | Some d \<Rightarrow> Some d1)\<rparr>
        = resolved_entry self e"
      using s1 s2 by (cases "cf_cda e") (simp_all add: resolved_entry_def)
    have h'_eq: "h' = h2[r := resolved_obj self (h0 ! r)]"
      using h' new at_r OEntry by simp
    have inv': "hinv self h0 h'"
      using i2 r unfolding h'_eq hinv_def by (auto simp: nth_list_update)
    have keep: "\<forall>x < length h0. h ! x = resolved_obj self (h0 ! x)
        \<longrightarrow> h' ! x = resolved_obj self (h0 ! x)"
    proof (intro allI impI)
      fix x assume x: "x < length h0" and d: "h ! x = resolved_obj self (h0 ! x)"
      from s1 x d have "h1 ! x = resolved_obj self (h0 ! x)" by blast
      with s2 x have "h2 ! x = resolved_obj self (h0 ! x)" by blast
      then show "h' ! x = resolved_obj self (h0 ! x)"
        unfolding h'_eq using x len2 by (cases "x = r") simp_all
    qed
    have at: "h' ! r = resolved_obj self (h0 ! r)"
      using r len2 unfolding h'_eq by simp
    have lists: "h' ! a = OList (resolved_list self xs)"
      if e0: "h0 ! r = OEntry e0" and mem: "(k, VList a) \<in> set (containers e0)"
        and a: "a < length h0" and xs: "h0 ! a = OList xs" for e0 k a xs
    proof -
      from assms(1) r hr OEntry e0 have "e = e0 \<or> e = resolved_entry self e0"
        by (auto simp: hinv_def)
      with mem have "(k, VList a) \<in> set (containers e)"
        by (auto simp: containers_resolved_VList)
      then have "(k, VList a) \<in> set ?cf \<or> (k, VList a) \<in> set (fields' e)"
        by (auto simp: containers_def)
      then have "h2 ! a = OList (resolved_list self xs)"
      proof
        assume "(k, VList a) \<in> set ?cf"
        with s1 a xs have "h1 ! a = resolved_obj self (h0 ! a)" by auto
        with s2 a xs show ?thesis by auto
      next
        assume "(k, VList a) \<in> set (fields' e)"
        with s2 a xs show ?thesis by blast
      qed
      moreover from e0 xs have "a \<noteq> r" by auto
      ultimately show ?thesis unfolding h'_eq by simp
    qed
    from inv' keep r at lists show ?thesis by blast
  next
    case (OAsset x)
    with assms(2) ob have "h' = h" by (simp add: resolve_resource_def)
    moreover have "h ! r = resolved_obj self (h0 ! r)" using at_r hr OAsset by simp
    moreover have "\<And>e. h0 ! r \<noteq> OEntry e" using at_r OAsset by auto
    ultimately show ?thesis using assms(1) r by auto
  next
    case (OContentType x)
    with assms(2) ob have "h' = h" by (simp add: resolve_resource_def)
    moreover have "h ! r = resolved_obj self (h0 ! r)" using at_r hr OContentType by simp
    moreover have "\<And>e. h0 ! r \<noteq> OEntry e" using at_r OContentType by auto
    ultimately show ?thesis using assms(1) r by auto
  qed (use assms(2) ob in \<open>simp_all add: resolve_resource_def\<close>)
qed

lemma resolve_loop_step:
  assumes "hinv self h0 h" and "resolve_loop self h rs = Inr h'"
  shows "hinv self h0 h'
    \<and> (\<forall>x < length h0. h ! x = resolved_obj self (h0 ! x) \<longrightarrow> h' ! x = resolved_obj self (h0 ! x))
    \<and> (\<forall>r \<in> set rs. r < length h0 \<and> h' ! r = resolved_obj self (h0 ! r)
          \<and> (\<forall>e k a xs. h0 ! r = OEntry e \<and> (k, VList a) \<in> set (containers e) \<and> a < length h0
                \<and> h0 ! a = OList xs \<longrightarrow> h' ! a = OList (resolved_list self xs)))"
    (is "_ \<and> _ \<and> (\<forall>r\<in>set rs. ?P r)")
  using assms
proof (induction rs arbitrary: h)
  case Nil
  then show ?case by simp
next
  case (Cons r rs)
  from Cons.prems(2) obtain h1 where
    h1: "resolve_resource self h r = Inr h1" and rest: "resolve_loop self h1 rs = Inr h'"
    by (auto simp: and_then_eq_Inr)
  note s = resolve_resource_step [OF Cons.prems(1) h1]
  then have i1: "hinv self h0 h1" by simp
  note ih = Cons.IH [OF i1 rest]
  have keep: "\<forall>x < length h0. h ! x = resolved_obj self (h0 ! x)
      \<longrightarrow> h' ! x = resolved_obj self (h0 ! x)"
    using s ih by blast
  have head: "r < length h0 \<and> h' ! r = resolved_obj self (h0 ! r)
      \<and> (\<forall>e k a xs. h0 ! r = OEntry e \<and> (k, VList a) \<in> set (containers e) \<and> a < length h0
            \<and> h0 ! a = OList xs \<longrightarrow> h' ! a = OList (resolved_list self xs))"
  proof (intro conjI allI impI)
    show "r < length h0" using s by simp
    show "h' ! r = resolved_obj self (h0 ! r)" using s ih by blast
    fix e k a xs
    assume a: "h0 ! r = OEntry e \<and> (k, VList a) \<in> set (containers e) \<and> a < length h0
        \<and> h0 ! a = OList xs"
    with s have "h1 ! a = OList (resolved_list self xs)" by blast
    with a have "h1 ! a = resolved_obj self (h0 ! a)" by simp
    with ih a have "h' ! a = resolved_obj self (h0 ! a)" by blast
    with a show "h' ! a = OList (resolved_list self xs)" by simp
  qed
  have "\<forall>r' \<in> set (r # rs). ?P r'"
  proof
    fix r' assume "r' \<in> set (r # rs)"
    then consider "r' = r" | "r' \<in> set rs" by auto
    then show "?P r'"
    proof cases
      case 1
      with head show ?thesis by blast
    next
      case 2
      with ih show ?thesis by blast
    qed
  qed
  with ih keep show ?case by blast
qed

lemma resolve_links_effect:
  assumes "resolve_links self h = Inr h'"
    and "map_of (items_mapped self) ''Entry'' = Some bucket"
  shows "hinv self h h'
    \<and> (\<forall>r \<in> snd ` set bucket. r < length h \<and> h' ! r = resolved_obj self (h ! r)
          \<and> (\<forall>e k a xs. h ! r = OEntry e \<and> (k, VList a) \<in> set (containers e) \<and> a < length h
                \<and> h ! a = OList xs \<longrightarrow> h' ! a = OList (resolved_list self xs)))"
proof -
  from assms have "resolve_loop self h (map snd bucket) = Inr h'"
    by (simp add: resolve_links_def)
  from resolve_loop_step [OF hinv_refl this] show ?thesis
    unfolding set_map by blast
qed

lemma resolved_list_nth:
  "n < length xs \<Longrightarrow> resolved_list self xs ! n =
     (if \<forall>m\<le>n. isinstance_ResourceLink (xs ! m) then resolved_value self (xs ! n) else xs ! n)"
proof (induction xs arbitrary: n)
  case Nil
  then show ?case by simp
next
  case (Cons x xs)
  show ?case
  proof (cases "isinstance_ResourceLink x")
    case False
    then have neg: "\<not> (\<forall>m\<le>n. isinstance_ResourceLink ((x # xs) ! m))"
      by (auto intro: exI [of _ 0])
    show ?thesis unfolding resolved_list_other [OF False] using neg by (simp only: if_False)
  next
    case True
    then obtain l where l: "x = VLink l" by (cases x) auto
    show ?thesis
    proof (cases n)
      case 0
      with l show ?thesis by (simp add: resolved_list_link)
    next
      case (Suc n')
      have "(\<forall>m\<le>Suc n'. isinstance_ResourceLink ((x # xs) ! m))
          = (\<forall>m\<le>n'. isinstance_ResourceLink (xs ! m))"
      proof
        assume a: "\<forall>m\<le>Suc n'. isinstance_ResourceLink ((x # xs) ! m)"
        show "\<forall>m\<le>n'. isinstance_ResourceLink (xs ! m)"
        proof (intro allI impI)
          fix m assume "m \<le> n'"
          with a have "isinstance_ResourceLink ((x # xs) ! Suc m)" by (intro a [rule_format]) simp
          then show "isinstance_ResourceLink (xs ! m)" by simp
        qed
      next
        assume a: "\<forall>m\<le>n'. isinstance_ResourceLink (xs ! m)"
        show "\<forall>m\<le>Suc n'. isinstance_ResourceLink ((x # xs) ! m)"
        proof (intro allI impI)
          fix m assume "m \<le> Suc n'"
          with a True show "isinstance_ResourceLink ((x # xs) ! m)" by (cases m) auto
        qed
      qed
      note iff = this
      from Cons.prems Suc have "n' < length xs" by simp
      from Cons.IH [OF this] have ih: "resolved_list self xs ! n' =
          (if \<forall>m\<le>n'. isinstance_ResourceLink (xs ! m)
           then resolved_value self (xs ! n') else xs ! n')" .
      show ?thesis
        unfolding Suc l resolved_list_link nth_Cons_Suc iff [unfolded l] by (rule ih)
    qed
  qed
qed

lemma resolved_list_length [simp]: "length (resolved_list self xs) = length xs"
proof -
  have "length (takeWhile isinstance_ResourceLink xs @ dropWhile isinstance_ResourceLink xs)
      = length xs"
    by (simp only: takeWhile_dropWhile_id)
  then have e: "length (takeWhile isinstance_ResourceLink xs)
      + length (dropWhile isinstance_ResourceLink xs) = length xs"
    unfolding length_append .
  show ?thesis unfolding resolved_list_def length_append length_map by (rule e)
qed

section \<open>The worked response, decoded and resolved\<close>

lemmas sample_defs =
  cats_response_def array_json_def entry_json_def entry_sys_def asset_json_def link_json_def
  happycat_fields_def nyancat_fields_def cats_factory_def Cat_def
  cats_heap_def happycat_entry_def nyancat_entry_def cats_array_def cats_asset_def
  nyancat_link_def happycat_link_def ghost_link_def image_link_def
  cats_resolved_def happycat_resolved_def nyancat_resolved_def
  space_link_response_def space_link_array_def space_link_heap_def

lemmas decode_defs =
  from_json.simps create_array.simps create_entry_def create_asset_def
  process_array_items_def process_array_includes_def kind_key_def set_mapped_def sys_id_def
  sys_or_empty_def ResourceLink_init_def alloc_def deref_def
  convert_value_def fields_get_def Field_set_def
  int_of_str_def strip_def isspace_def parse_digits_def isdigit_def digits_value_def

lemmas resolve_defs =
  resolve_links_def resolve_resource_def resolve_resource_link_def deref_def

lemma decode_cats:
  "from_json example_runtime cats_factory [] cats_response = Inr (cats_heap, Some 5)"
  by (simp add: sample_defs decode_defs)

lemma resolve_cats: "resolve_links cats_array cats_heap = Inr cats_resolved"
  by (simp add: sample_defs resolve_defs)



section \<open>Claims about the resolution pass\<close>

lemma resolved_dict_nth:
  "n < length d \<Longrightarrow> resolved_dict self d ! n = (fst (d ! n), resolved_value self (snd (d ! n)))"
  by (simp add: resolved_dict_def)

lemma resolved_value_found:
  assumes "link_type l = JStr kind" and "map_of (items_mapped self) kind = Some bk"
    and "hashable (resource_id l) = Inr k" and "map_of bk k = Some t"
  shows "resolved_value self (VLink l) = VRes t"
  using assms by (simp add: resolved_value_def resolve_resource_link_def)

lemma resolve_links_entry:
  assumes "resolve_links self h = Inr h'"
    and "map_of (items_mapped self) ''Entry'' = Some bucket"
    and "map_of bucket k = Some r" and "deref h r = Some (OEntry e)"
  shows "deref h' r = Some (OEntry (resolved_entry self e))"
proof -
  from assms(3) have "r \<in> snd ` set bucket" by (force dest: map_of_SomeD)
  with resolve_links_effect [OF assms(1,2)] assms(4)
  have "hinv self h h'" and "r < length h" and "h' ! r = resolved_obj self (h ! r)"
    and "h ! r = OEntry e"
    by (auto simp: deref_def split: if_splits)
  then show ?thesis by (simp add: deref_def hinv_def)
qed

text \<open>
  Claim C1, as amended. Let a resolution pass over an array complete, and let
  \<open>A\<close> and \<open>B\<close> be entries held in \<open>items_mapped["Entry"]\<close> under the
  identifiers \<open>ia\<close> and \<open>ib\<close>. Afterwards \<open>A\<close> and \<open>B\<close> are the same
  objects (same addresses) with every slot of both field containers, the typed
  one and \<open>fields\<close>, passed through \<open>resolved_value\<close>: a slot of \<open>A\<close> that
  held a placeholder for \<open>(Entry, ib)\<close> holds the reference to \<open>B\<close> itself,
  a slot of \<open>B\<close> that held a placeholder for \<open>(Entry, ia)\<close> holds the reference
  to \<open>A\<close> itself, and in general a slot that held a placeholder whose kind and
  identifier are found in \<open>items_mapped\<close> holds the very reference stored
  there. (Placeholders inside a list are resolved only in its leading run, see
  C2; a pass that meets a placeholder of another kind raises, see C3.)
\<close>

theorem resolve_cycle:
  assumes "resolve_links self h = Inr h'"
    and "map_of (items_mapped self) ''Entry'' = Some bucket"
    and "hashable ia = Inr ka" and "hashable ib = Inr kb"
    and "map_of bucket ka = Some a" and "map_of bucket kb = Some b"
    and "deref h a = Some (OEntry ea)" and "deref h b = Some (OEntry eb)"
  shows "deref h' a = Some (OEntry (resolved_entry self ea))
    \<and> deref h' b = Some (OEntry (resolved_entry self eb))
    \<and> (\<forall>d n f. (d = fields' ea \<or> cf_cda ea = Some d) \<and> n < length d
          \<and> d ! n = (f, VLink (ResourceLink ib (JStr ''Entry'')))
          \<longrightarrow> resolved_dict self d ! n = (f, VRes b))
    \<and> (\<forall>d n f. (d = fields' eb \<or> cf_cda eb = Some d) \<and> n < length d
          \<and> d ! n = (f, VLink (ResourceLink ia (JStr ''Entry'')))
          \<longrightarrow> resolved_dict self d ! n = (f, VRes a))
    \<and> (\<forall>d n f l kind bk k t. n < length d \<and> d ! n = (f, VLink l)
          \<and> link_type l = JStr kind \<and> map_of (items_mapped self) kind = Some bk
          \<and> hashable (resource_id l) = Inr k \<and> map_of bk k = Some t
          \<longrightarrow> resolved_dict self d ! n = (f, VRes t))"
proof -
  have general: "resolved_dict self d ! n = (f, VRes t)"
    if "n < length d" "d ! n = (f, VLink l)" "link_type l = JStr kind"
      "map_of (items_mapped self) kind = Some bk" "hashable (resource_id l) = Inr k"
      "map_of bk k = Some t" for d n f l kind bk k t
    using that resolved_value_found [of l kind self bk k t] by (simp add: resolved_dict_nth)
  have to_b: "resolved_dict self d ! n = (f, VRes b)"
    if "n < length d" "d ! n = (f, VLink (ResourceLink ib (JStr ''Entry'')))" for d n f
    using that assms(2,4,6) by (intro general [of n d f "ResourceLink ib (JStr ''Entry'')" "''Entry''" bucket kb]) simp_all
  have to_a: "resolved_dict self d ! n = (f, VRes a)"
    if "n < length d" "d ! n = (f, VLink (ResourceLink ia (JStr ''Entry'')))" for d n f
    using that assms(2,3,5) by (intro general [of n d f "ResourceLink ia (JStr ''Entry'')" "''Entry''" bucket ka]) simp_all
  from resolve_links_entry [OF assms(1,2,5,7)] resolve_links_entry [OF assms(1,2,6,8)]
    general to_a to_b
  show ?thesis by blast
qed

theorem resolve_cycle_witness:
  "deref cats_resolved 1 = Some (OEntry happycat_resolved)
   \<and> deref cats_resolved 3 = Some (OEntry nyancat_resolved)
   \<and> fields' happycat_resolved ! 2 = (''bestFriend'', VRes 3)
   \<and> the (cf_cda happycat_resolved) ! 3 = (''bestFriend'', VRes 3)
   \<and> fields' nyancat_resolved ! 1 = (''bestFriend'', VRes 1)
   \<and> the (cf_cda nyancat_resolved) ! 1 = (''bestFriend'', VRes 1)
   \<and> fields' happycat_resolved ! 3 = (''image'', VRes 4)"
proof -
  have r: "resolved_entry cats_array happycat_entry = happycat_resolved"
    "resolved_entry cats_array nyancat_entry = nyancat_resolved"
    by (simp_all add: resolved_entry_def resolved_dict_def resolved_value_def sample_defs
        resolve_resource_link_def)
  have "deref cats_resolved 1 = Some (OEntry (resolved_entry cats_array happycat_entry))
    \<and> deref cats_resolved 3 = Some (OEntry (resolved_entry cats_array nyancat_entry))"
    using resolve_cycle [OF resolve_cats, of "[(KStr ''happycat'', 1), (KStr ''nyancat'', 3)]"
        "JStr ''happycat''" "KStr ''happycat''" "JStr ''nyancat''" "KStr ''nyancat''" 1 3
        happycat_entry nyancat_entry]
    by (simp add: cats_array_def cats_heap_def deref_def)
  then show ?thesis
    unfolding r by (simp add: happycat_resolved_def nyancat_resolved_def)
qed

text \<open>Claim C1 as stated fails: the list in Nyan Cat's field \<open>tags\<close> starts
  with a string, so the placeholder after it stays although its target, Happy
  Cat, is in \<open>items_mapped\<close>.\<close>

theorem resolve_everywhere_counterexample:
  "from_json example_runtime cats_factory [] cats_response = Inr (cats_heap, Some 5)
   \<and> cats_heap ! 5 = OArray cats_array
   \<and> resolve_links cats_array cats_heap = Inr cats_resolved
   \<and> fields' nyancat_resolved ! 2 = (''tags'', VList 2)
   \<and> cats_resolved ! 2 = OList [VJson (JStr ''rainbow''), happycat_link]
   \<and> happycat_link = VLink (ResourceLink (JStr ''happycat'') (JStr ''Entry''))
   \<and> resolve_resource_link cats_array (ResourceLink (JStr ''happycat'') (JStr ''Entry''))
       = Inr (Some 1)"
  using decode_cats resolve_cats
  by (simp add: cats_heap_def cats_resolved_def nyancat_resolved_def happycat_link_def
      resolve_resource_link_def cats_array_def)

text \<open>
  Claim C2, as amended. Let a resolution pass complete, and let a field container
  of an entry in \<open>items_mapped["Entry"]\<close> hold a list. Afterwards the same list
  object has the same length, and its element at position \<open>n\<close> is the resolved
  value of the old element when all elements up to \<open>n\<close> were placeholders, and
  the old element otherwise. So the leading run of placeholders is resolved in
  place, everything from the first other element on is untouched, and a list whose
  first element is not a placeholder is untouched entirely.
\<close>

theorem resolve_sequence:
  assumes "resolve_links self h = Inr h'"
    and "map_of (items_mapped self) ''Entry'' = Some bucket"
    and "map_of bucket i = Some r" and "deref h r = Some (OEntry e)"
    and "(k, VList a) \<in> set (containers e)" and "deref h a = Some (OList xs)"
  shows "\<exists>ys. deref h' a = Some (OList ys) \<and> length ys = length xs
    \<and> (\<forall>n < length xs. ys ! n =
          (if \<forall>m\<le>n. isinstance_ResourceLink (xs ! m) then resolved_value self (xs ! n)
           else xs ! n))
    \<and> (\<not> isinstance_ResourceLink (hd xs) \<longrightarrow> ys = xs)"
proof -
  from assms(3) have "r \<in> snd ` set bucket" by (force dest: map_of_SomeD)
  with resolve_links_effect [OF assms(1,2)] assms(4,5,6)
  have "h' ! a = OList (resolved_list self xs)" and "hinv self h h'" and "a < length h"
    by (auto simp: deref_def split: if_splits)
  then have "deref h' a = Some (OList (resolved_list self xs))"
    by (simp add: deref_def hinv_def)
  moreover have "\<not> isinstance_ResourceLink (hd xs) \<longrightarrow> resolved_list self xs = xs"
    by (cases xs) (simp_all add: resolved_list_other)
  ultimately show ?thesis by (auto simp: resolved_list_nth)
qed

theorem resolve_sequence_witness:
  "deref cats_resolved 0 = Some (OList [VRes 3, ghost_link, VJson (JStr ''x''), nyancat_link])
   \<and> deref cats_resolved 2 = Some (OList [VJson (JStr ''rainbow''), happycat_link])"
proof -
  have 1: "map_of (items_mapped cats_array) ''Entry''
      = Some [(KStr ''happycat'', 1), (KStr ''nyancat'', 3)]"
    by (simp add: cats_array_def)
  have 2: "map_of [(KStr ''happycat'', 1), (KStr ''nyancat'', 3 :: nat)] (KStr ''happycat'') = Some 1"
    by simp
  have 3: "deref cats_heap 1 = Some (OEntry happycat_entry)"
    by (simp add: cats_heap_def deref_def)
  have 4: "(''friends'', VList 0) \<in> set (containers happycat_entry)"
    by (simp add: containers_def happycat_entry_def)
  have 5: "deref cats_heap 0 = Some (OList [nyancat_link, ghost_link, VJson (JStr ''x''), nyancat_link])"
    by (simp add: cats_heap_def deref_def)
  from resolve_sequence [OF resolve_cats 1 2 3 4 5]
  obtain ys where "deref cats_resolved 0 = Some (OList ys)" by blast
  then show ?thesis by (simp add: cats_resolved_def deref_def)
qed

text \<open>Claim C2 as stated fails: the list in Happy Cat's field \<open>friends\<close>
  starts with a placeholder, yet its last element, a placeholder for Nyan Cat
  behind a string, is not resolved.\<close>
theorem resolve_sequence_counterexample:
  "resolve_links cats_array cats_heap = Inr cats_resolved
   \<and> fields' happycat_entry ! 4 = (''friends'', VList 0)
   \<and> cats_heap ! 0 = OList [nyancat_link, ghost_link, VJson (JStr ''x''), nyancat_link]
   \<and> cats_resolved ! 0 = OList [VRes 3, ghost_link, VJson (JStr ''x''), nyancat_link]
   \<and> nyancat_link = VLink (ResourceLink (JStr ''nyancat'') (JStr ''Entry''))
   \<and> resolve_resource_link cats_array (ResourceLink (JStr ''nyancat'') (JStr ''Entry''))
       = Inr (Some 3)"
  using resolve_cats
  by (simp add: cats_heap_def cats_resolved_def happycat_entry_def nyancat_link_def
      resolve_resource_link_def cats_array_def)


section \<open>When the resolution pass completes\<close>











lemma has_fields_resolved [simp]: "has_fields (resolved_obj self ob) = has_fields ob"
  by (cases ob) (simp_all add: has_fields_def)






section \<open>The entries that decoding creates\<close>

text \<open>What \<open>create_entry\<close> returns: the address of a new entry, whose
  \<open>raw_fields\<close> is the \<open>fields\<close> member of the JSON, whose \<open>fields\<close> is that
  member after link substitution, and whose typed storage is what the loop over
  the declared fields of the registered class left, if a class is registered.\<close>

lemma create_entry_Inr:
  assumes "create_entry rt self h json = Inr (h1, a)"
  shows "\<exists>e ha. a < length h1 \<and> h1 ! a = OEntry e
    \<and> getitem json ''sys'' = Inr (sys e)
    \<and> getitem json ''fields'' = Inr (JDict (raw_fields e))
    \<and> replace_links h (raw_fields e) = Inr (ha, fields' e)
    \<and> (cf_cda e = None
        \<or> (\<exists>(clazz :: entry_class) hb.
              set_fields rt ha (fields' e) (entry_fields clazz) None = Inr (hb, cf_cda e)))"
proof -
  from assms obtain s c1 c2 ct fds where s: "getitem json ''sys'' = Inr s"
    and fds: "getitem json ''fields'' = Inr fds"
    and body: "(case fds of
        JDict fd \<Rightarrow>
          and_then (replace_links h fd) (\<lambda>(h1, fs).
          and_then (hashable ct) (\<lambda>kct.
            case map_of (entries_mapping self) kct of
              Some clazz \<Rightarrow>
                and_then (set_fields rt h1 fs (entry_fields clazz) None) (\<lambda>(h2, dct).
                  Inr (alloc h2 (OEntry \<lparr>sys = s, class_name = cls_name clazz, fields' = fs,
                                          raw_fields = fd, cf_cda = dct\<rparr>)))
            | None \<Rightarrow>
                Inr (alloc h1 (OEntry \<lparr>sys = s, class_name = ''Entry'', fields' = fs,
                                       raw_fields = fd, cf_cda = None\<rparr>))))
      | _ \<Rightarrow> Inl AttributeError) = Inr (h1, a)"
    unfolding create_entry_def and_then_eq_Inr by blast
  from body obtain fd where fd: "fds = JDict fd" by (cases fds) simp_all
  with body obtain ha fs kct where rl: "replace_links h fd = Inr (ha, fs)"
    and rest: "(case map_of (entries_mapping self) kct of
              Some clazz \<Rightarrow>
                and_then (set_fields rt ha fs (entry_fields clazz) None) (\<lambda>(h2, dct).
                  Inr (alloc h2 (OEntry \<lparr>sys = s, class_name = cls_name clazz, fields' = fs,
                                          raw_fields = fd, cf_cda = dct\<rparr>)))
            | None \<Rightarrow>
                Inr (alloc ha (OEntry \<lparr>sys = s, class_name = ''Entry'', fields' = fs,
                                       raw_fields = fd, cf_cda = None\<rparr>))) = Inr (h1, a)"
    by (auto simp: and_then_eq_Inr)
  show ?thesis
  proof (cases "map_of (entries_mapping self) kct")
    case None
    with rest have "h1 = ha @ [OEntry \<lparr>sys = s, class_name = ''Entry'', fields' = fs,
        raw_fields = fd, cf_cda = None\<rparr>]" and "a = length ha"
      by (auto simp: alloc_def)
    with s fds fd rl show ?thesis by simp
  next
    case (Some clazz)
    with rest obtain hb dct where sf: "set_fields rt ha fs (entry_fields clazz) None = Inr (hb, dct)"
      and "h1 = hb @ [OEntry \<lparr>sys = s, class_name = cls_name clazz, fields' = fs,
        raw_fields = fd, cf_cda = dct\<rparr>]" and "a = length hb"
      by (auto simp: and_then_eq_Inr alloc_def)
    with s fds fd rl show ?thesis by auto
  qed
qed

lemma resolve_links_hinv:
  assumes "resolve_links self h = Inr h'"
  shows "hinv self h h'"
proof (cases "map_of (items_mapped self) ''Entry''")
  case None
  with assms show ?thesis by (simp add: resolve_links_def)
next
  case (Some bucket)
  from resolve_links_effect [OF assms Some] show ?thesis by simp
qed

lemma resolve_links_keeps_entry:
  assumes "resolve_links self h = Inr h'" and "a < length h" and "h ! a = OEntry e"
  shows "a < length h' \<and> (h' ! a = OEntry e \<or> h' ! a = OEntry (resolved_entry self e))"
  using resolve_links_hinv [OF assms(1)] assms(2,3) by (auto simp: hinv_def)

lemma prefix_nth: "prefix xs ys \<Longrightarrow> n < length xs \<Longrightarrow> n < length ys \<and> ys ! n = xs ! n"
  by (auto simp: prefix_def nth_append)

text \<open>
  Claim C10. Let \<open>create_entry\<close> return an entry for a JSON node, let decoding
  go on (the store only grows) and let a resolution pass over any array complete.
  Then the entry's \<open>raw_fields\<close> is the \<open>fields\<close> member of the JSON node as it
  was given, a JSON value, in which no placeholder can occur; after the pass the
  entry is at the same address, and it differs from the decoded one in its
  \<open>fields\<close> and its typed storage at most: \<open>raw_fields\<close> is unchanged.
\<close>

theorem raw_fields_frame:
  assumes "create_entry rt self h json = Inr (h1, a)"
    and "prefix h1 h2"
    and "resolve_links arr h2 = Inr h3"
  shows "\<exists>e e'. deref h1 a = Some (OEntry e)
    \<and> getitem json ''fields'' = Inr (JDict (raw_fields e))
    \<and> deref h3 a = Some (OEntry e')
    \<and> e' = e\<lparr>fields' := fields' e', cf_cda := cf_cda e'\<rparr>
    \<and> raw_fields e' = raw_fields e"
proof -
  from create_entry_Inr [OF assms(1)]
  obtain e where a: "a < length h1" and e: "h1 ! a = OEntry e"
    and raw: "getitem json ''fields'' = Inr (JDict (raw_fields e))" by blast
  from prefix_nth [OF assms(2) a] e have "a < length h2" "h2 ! a = OEntry e" by simp_all
  from resolve_links_keeps_entry [OF assms(3) this]
  have a3: "a < length h3"
    and "h3 ! a = OEntry e \<or> h3 ! a = OEntry (resolved_entry arr e)" by simp_all
  then obtain e' where e': "h3 ! a = OEntry e'" and "e' = e \<or> e' = resolved_entry arr e"
    by blast
  then have "e' = e\<lparr>fields' := fields' e', cf_cda := cf_cda e'\<rparr>" "raw_fields e' = raw_fields e"
    by (auto simp: resolved_entry_def)
  with a e raw a3 e' show ?thesis by (simp add: deref_def)
qed

lemma create_happycat:
  "create_entry example_runtime cats_factory [] (entry_json ''happycat'' ''cat'' happycat_fields)
     = Inr (take 2 cats_heap, 1)"
  by (simp add: sample_defs decode_defs)

theorem raw_fields_frame_witness:
  "\<exists>e e'. deref (take 2 cats_heap) 1 = Some (OEntry e)
    \<and> getitem (entry_json ''happycat'' ''cat'' happycat_fields) ''fields''
        = Inr (JDict (raw_fields e))
    \<and> deref cats_resolved 1 = Some (OEntry e')
    \<and> e' = e\<lparr>fields' := fields' e', cf_cda := cf_cda e'\<rparr>
    \<and> raw_fields e' = raw_fields e"
proof -
  have "prefix (take 2 cats_heap) cats_heap" by (rule take_is_prefix)
  from raw_fields_frame [OF create_happycat this resolve_cats] show ?thesis .
qed

section \<open>The two field containers of a schema-bound entry\<close>






end
